theory Spec2Isabelle
  imports Complex_Main
begin

section \<open>Numbers\<close>

text \<open>
  The TypeScript type \<^verbatim>\<open>number\<close> is the IEEE 754 binary64 format. A value is a
  finite real (\<open>Fin 0\<close> is the positive zero), the negative zero, one of the two
  infinities, or the not-a-number value.
\<close>

datatype number = Fin real | NegZero | PosInf | NegInf | NaN

text \<open>Rounding a real to the nearest integer, a tie going to the even neighbour.\<close>

definition rhe :: "real \<Rightarrow> int" where
  "rhe t = (let f = \<lfloor>t\<rfloor>; d = t - of_int f in
     if d < 1 / 2 then f
     else if 1 / 2 < d then f + 1
     else if even f then f else f + 1)"

text \<open>
  The binary exponent of a non-zero real: \<open>2 powi bexp x \<le> \<bar>x\<bar> < 2 powi (bexp x + 1)\<close>.
  A binary64 value near \<open>x\<close> is a multiple of \<open>2 powi qexp x\<close>: 53 significant bits for
  the normal numbers, the fixed spacing \<open>2 powi - 1074\<close> for the subnormal ones.
\<close>

definition bexp :: "real \<Rightarrow> int" where
  "bexp x = \<lfloor>log 2 \<bar>x\<bar>\<rfloor>"

definition qexp :: "real \<Rightarrow> int" where
  "qexp x = max (bexp x - 52) (- 1074)"

definition rnd :: "real \<Rightarrow> real" where
  "rnd x = of_int (rhe (x / 2 powi qexp x)) * 2 powi qexp x"

text \<open>
  \<open>fl x\<close> is the number that a correctly rounded operation returns when its exact
  result is \<open>x\<close> (round to nearest, ties to even): an exact result that rounds to
  \<open>2 ^ 1024\<close> or beyond overflows to an infinity, and a negative one that rounds to zero
  gives the negative zero.
\<close>

definition fl :: "real \<Rightarrow> number" where
  "fl x = (let r = rnd x in
     if 2 ^ 1024 \<le> r then PosInf
     else if r \<le> - (2 ^ 1024) then NegInf
     else if r = 0 \<and> x < 0 then NegZero
     else Fin r)"

text \<open>A numeric literal of the source denotes the number nearest to its decimal value.\<close>

definition lit :: "real \<Rightarrow> number" where
  "lit x = fl x"

fun val :: "number \<Rightarrow> real" where
  "val (Fin x) = x"
| "val _ = 0"

fun sign :: "number \<Rightarrow> bool" where
  "sign (Fin x) = (x < 0)"
| "sign NegZero = True"
| "sign NegInf = True"
| "sign _ = False"

fun is_inf :: "number \<Rightarrow> bool" where
  "is_inf PosInf = True"
| "is_inf NegInf = True"
| "is_inf _ = False"

fun is_zero :: "number \<Rightarrow> bool" where
  "is_zero (Fin x) = (x = 0)"
| "is_zero NegZero = True"
| "is_zero _ = False"

definition signed_zero :: "bool \<Rightarrow> number" where
  "signed_zero s = (if s then NegZero else Fin 0)"

definition signed_inf :: "bool \<Rightarrow> number" where
  "signed_inf s = (if s then NegInf else PosInf)"

text \<open>The arithmetic operators \<^verbatim>\<open>+\<close>, unary and binary \<^verbatim>\<open>-\<close>, \<^verbatim>\<open>*\<close>, \<^verbatim>\<open>/\<close>.\<close>

definition fadd :: "number \<Rightarrow> number \<Rightarrow> number" where
  "fadd a b =
    (if a = NaN \<or> b = NaN then NaN
     else if is_inf a \<and> is_inf b then (if a = b then a else NaN)
     else if is_inf a then a
     else if is_inf b then b
     else if a = NegZero \<and> b = NegZero then NegZero
     else fl (val a + val b))"

fun fneg :: "number \<Rightarrow> number" where
  "fneg (Fin x) = (if x = 0 then NegZero else Fin (- x))"
| "fneg NegZero = Fin 0"
| "fneg PosInf = NegInf"
| "fneg NegInf = PosInf"
| "fneg NaN = NaN"

definition fsub :: "number \<Rightarrow> number \<Rightarrow> number" where
  "fsub a b = fadd a (fneg b)"

definition fmul :: "number \<Rightarrow> number \<Rightarrow> number" where
  "fmul a b =
    (if a = NaN \<or> b = NaN then NaN
     else if is_inf a \<or> is_inf b then
       (if is_zero a \<or> is_zero b then NaN else signed_inf (sign a \<noteq> sign b))
     else if is_zero a \<or> is_zero b then signed_zero (sign a \<noteq> sign b)
     else fl (val a * val b))"

definition fdiv :: "number \<Rightarrow> number \<Rightarrow> number" where
  "fdiv a b =
    (if a = NaN \<or> b = NaN then NaN
     else if is_inf a then (if is_inf b then NaN else signed_inf (sign a \<noteq> sign b))
     else if is_inf b then signed_zero (sign a \<noteq> sign b)
     else if is_zero b then (if is_zero a then NaN else signed_inf (sign a \<noteq> sign b))
     else if is_zero a then signed_zero (sign a \<noteq> sign b)
     else fl (val a / val b))"

text \<open>\<^verbatim>\<open>Math.sqrt\<close>: correctly rounded; the root of the negative zero is the negative zero.\<close>

fun fsqrt :: "number \<Rightarrow> number" where
  "fsqrt (Fin x) = (if x < 0 then NaN else fl (sqrt x))"
| "fsqrt NegZero = NegZero"
| "fsqrt PosInf = PosInf"
| "fsqrt NegInf = NaN"
| "fsqrt NaN = NaN"

text \<open>
  The comparisons \<^verbatim>\<open><\<close>, \<^verbatim>\<open>>\<close>, \<^verbatim>\<open>>=\<close> and \<^verbatim>\<open>==\<close>: every comparison with
  \<open>NaN\<close> is false, and the two zeros are equal.
\<close>

fun flt :: "number \<Rightarrow> number \<Rightarrow> bool" where
  "flt NaN _ = False"
| "flt _ NaN = False"
| "flt PosInf _ = False"
| "flt _ NegInf = False"
| "flt NegInf _ = True"
| "flt _ PosInf = True"
| "flt a b = (val a < val b)"

definition fgt :: "number \<Rightarrow> number \<Rightarrow> bool" where
  "fgt a b = flt b a"

definition feq :: "number \<Rightarrow> number \<Rightarrow> bool" where
  "feq a b = (a \<noteq> NaN \<and> b \<noteq> NaN \<and> (a = b \<or> (is_zero a \<and> is_zero b)))"

definition fge :: "number \<Rightarrow> number \<Rightarrow> bool" where
  "fge a b = (flt b a \<or> feq a b)"

text \<open>The numbers that really are binary64 values: a finite one is its own rounding.\<close>

fun is_number :: "number \<Rightarrow> bool" where
  "is_number (Fin x) = (fl x = Fin x)"
| "is_number _ = True"

fun finite_number :: "number \<Rightarrow> bool" where
  "finite_number (Fin x) = (fl x = Fin x)"
| "finite_number NegZero = True"
| "finite_number _ = False"

section \<open>Arrays and objects\<close>

text \<open>
  Arrays are mutable and shared by reference, so they live in a store: a reference is an
  index into the list of all arrays allocated so far, and allocation appends.
\<close>

type_synonym ref = nat
type_synonym heap = "number list list"

definition alloc :: "heap \<Rightarrow> number list \<Rightarrow> ref \<times> heap" where
  "alloc h xs = (length h, h @ [xs])"

text \<open>
  Any mutation of the array behind a reference (an element assignment, \<^verbatim>\<open>push\<close>,
  \<^verbatim>\<open>length = 0\<close>, ...) replaces its contents.
\<close>

definition mutate :: "heap \<Rightarrow> ref \<Rightarrow> number list \<Rightarrow> heap" where
  "mutate h r xs = h[r := xs]"

text \<open>
  A \<^verbatim>\<open>LABColor\<close> object holds one private field, \<^verbatim>\<open>values\<close>, a reference to the array
  \<^verbatim>\<open>[l, a, b]\<close>.
\<close>

record LABColor =
  values_ref :: ref

definition new_LABColor :: "heap \<Rightarrow> number \<Rightarrow> number \<Rightarrow> number \<Rightarrow> LABColor \<times> heap" where
  "new_LABColor h l a b = (case alloc h [l, a, b] of (r, h') \<Rightarrow> (\<lparr>values_ref = r\<rparr>, h'))"

definition get_l :: "heap \<Rightarrow> LABColor \<Rightarrow> number" where
  "get_l h this = h ! values_ref this ! 0"

definition get_a :: "heap \<Rightarrow> LABColor \<Rightarrow> number" where
  "get_a h this = h ! values_ref this ! 1"

definition get_b :: "heap \<Rightarrow> LABColor \<Rightarrow> number" where
  "get_b h this = h ! values_ref this ! 2"

definition toArray :: "heap \<Rightarrow> LABColor \<Rightarrow> ref \<times> heap" where
  "toArray h this = alloc h (map (\<lambda>v. v) (h ! values_ref this))"

text \<open>\<^verbatim>\<open>distanceTo\<close>: the CIE94 colour difference, statement by statement.\<close>

definition distanceTo :: "heap \<Rightarrow> LABColor \<Rightarrow> LABColor \<Rightarrow> number" where
  "distanceTo h this color =
    (let tv = h ! values_ref this;
         cv = h ! values_ref color;
         deltaL = fsub (tv ! 0) (cv ! 0);
         deltaA = fsub (tv ! 1) (cv ! 1);
         deltaB = fsub (tv ! 2) (cv ! 2);
         c1 = fsqrt (fadd (fmul (tv ! 1) (tv ! 1)) (fmul (tv ! 2) (tv ! 2)));
         c2 = fsqrt (fadd (fmul (cv ! 1) (cv ! 1)) (fmul (cv ! 2) (cv ! 2)));
         deltaC = fsub c1 c2;
         deltaH = fsub (fadd (fmul deltaA deltaA) (fmul deltaB deltaB)) (fmul deltaC deltaC);
         deltaH = (if flt deltaH (lit 0) then lit 0 else fsqrt deltaH);
         sc = fadd (lit 1.0) (fmul (lit 0.045) c1);
         sh = fadd (lit 1.0) (fmul (lit 0.015) c1);
         deltaLKlsl = fdiv deltaL (lit 1.0);
         deltaCkcsc = fdiv deltaC sc;
         deltaHkhsh = fdiv deltaH sh;
         i = fadd (fadd (fmul deltaLKlsl deltaLKlsl) (fmul deltaCkcsc deltaCkcsc))
               (fmul deltaHkhsh deltaHkhsh)
     in if flt i (lit 0) then lit 0 else fsqrt i)"

definition distanceToGray :: "heap \<Rightarrow> LABColor \<Rightarrow> number" where
  "distanceToGray h this =
    fsqrt (fadd (fmul (get_a h this) (get_a h this)) (fmul (get_b h this) (get_b h this)))"

text \<open>
  Modelled from the spec: the class \<^verbatim>\<open>XYZColor\<close> is imported from a file that is not
  part of the sources. The spec gives it a three-argument constructor for the
  tristimulus values and components \<^verbatim>\<open>x\<close>, \<^verbatim>\<open>y\<close>, \<^verbatim>\<open>z\<close>. Its constant
  \<^verbatim>\<open>XYZColor.D65\<close> and its method \<^verbatim>\<open>toRGB\<close>, and \<^verbatim>\<open>toSRGB\<close> of \<^verbatim>\<open>RGBColor\<close>, are
  parameters of the functions that use them.
\<close>

record XYZColor =
  xyz_x :: number
  xyz_y :: number
  xyz_z :: number

definition new_XYZColor :: "number \<Rightarrow> number \<Rightarrow> number \<Rightarrow> XYZColor" where
  "new_XYZColor x y z = \<lparr>xyz_x = x, xyz_y = y, xyz_z = z\<rparr>"

text \<open>The arrow function mapped over \<^verbatim>\<open>[x, y, z]\<close> in \<^verbatim>\<open>toXYZ\<close>.\<close>

definition xyz_ratio :: "number \<Rightarrow> number" where
  "xyz_ratio v =
    (let v3 = fmul (fmul v v) v
     in if fgt v3 (lit 0.008856451) then v3
        else fdiv (fsub v (fdiv (lit 16) (lit 116))) (lit 7.787037))"

text \<open>
  The two arrays that \<^verbatim>\<open>toXYZ\<close> builds are temporaries that nothing else refers to:
  they are lists here, and the method only reads the store.
\<close>

definition toXYZ :: "XYZColor \<Rightarrow> heap \<Rightarrow> LABColor \<Rightarrow> XYZColor" where
  "toXYZ D65 h this =
    (let y = fdiv (fadd (fmul (get_l h this) (lit 100)) (lit 16)) (lit 116);
         x = fadd (fdiv (get_a h this) (lit 5)) y;
         z = fsub y (fdiv (get_b h this) (lit 2));
         xyz = map xyz_ratio [x, y, z];
         x = xyz ! 0;
         y = xyz ! 1;
         z = xyz ! 2
     in new_XYZColor (fmul x (xyz_x D65)) (fmul y (xyz_y D65)) (fmul z (xyz_z D65)))"

definition toRGB :: "(XYZColor \<Rightarrow> 'rgb) \<Rightarrow> XYZColor \<Rightarrow> heap \<Rightarrow> LABColor \<Rightarrow> 'rgb" where
  "toRGB xyz_toRGB D65 h this = xyz_toRGB (toXYZ D65 h this)"

definition toSRGB ::
  "(XYZColor \<Rightarrow> 'rgb) \<Rightarrow> ('rgb \<Rightarrow> 'srgb) \<Rightarrow> XYZColor \<Rightarrow> heap \<Rightarrow> LABColor \<Rightarrow> 'srgb" where
  "toSRGB xyz_toRGB rgb_toSRGB D65 h this = rgb_toSRGB (xyz_toRGB (toXYZ D65 h this))"

text \<open>
  The object \<open>c\<close> is a live colour with components \<open>l\<close>, \<open>a\<close>, \<open>b\<close> in the store \<open>h\<close>.
\<close>

definition holds :: "heap \<Rightarrow> LABColor \<Rightarrow> number \<Rightarrow> number \<Rightarrow> number \<Rightarrow> bool" where
  "holds h c l a b = (values_ref c < length h \<and> h ! values_ref c = [l, a, b])"

text \<open>
  The calls a client can make on a colour, and the store after each. Only \<^verbatim>\<open>toArray\<close>
  leaves anything new in the store; no method assigns to an existing array.
\<close>

datatype call = DistanceTo LABColor | DistanceToGray | ToArray | ToXYZ | ToRGB | ToSRGB

fun heap_after :: "heap \<Rightarrow> LABColor \<times> call \<Rightarrow> heap" where
  "heap_after h (this, ToArray) = snd (toArray h this)"
| "heap_after h (this, DistanceTo color) = h"
| "heap_after h (this, DistanceToGray) = h"
| "heap_after h (this, ToXYZ) = h"
| "heap_after h (this, ToRGB) = h"
| "heap_after h (this, ToSRGB) = h"

section \<open>The formulas of the specification\<close>

text \<open>
  The CIE94 difference as the specification words it: the clamps come before the square
  roots, and the lightness difference enters the sum undivided.
\<close>

definition fsq :: "number \<Rightarrow> number" where
  "fsq v = fmul v v"

definition clamp0 :: "number \<Rightarrow> number" where
  "clamp0 v = (if flt v (lit 0) then lit 0 else v)"

definition spec_chroma :: "number \<Rightarrow> number \<Rightarrow> number" where
  "spec_chroma a b = fsqrt (fadd (fsq a) (fsq b))"

text \<open>The squared hue term before its clamp: \<open>deltaA^2 + deltaB^2 - deltaC^2\<close>.\<close>

definition spec_radicand :: "number \<Rightarrow> number \<Rightarrow> number \<Rightarrow> number \<Rightarrow> number" where
  "spec_radicand a1 b1 a2 b2 =
    fsub (fadd (fsq (fsub a1 a2)) (fsq (fsub b1 b2)))
      (fsq (fsub (spec_chroma a1 b1) (spec_chroma a2 b2)))"

definition spec_cie94 ::
  "number \<Rightarrow> number \<Rightarrow> number \<Rightarrow> number \<Rightarrow> number \<Rightarrow> number \<Rightarrow> number" where
  "spec_cie94 l1 a1 b1 l2 a2 b2 =
    (let deltaL = fsub l1 l2;
         C1 = spec_chroma a1 b1;
         C2 = spec_chroma a2 b2;
         deltaC = fsub C1 C2;
         deltaH = fsqrt (clamp0 (spec_radicand a1 b1 a2 b2));
         Sc = fadd (lit 1) (fmul (lit 0.045) C1);
         Sh = fadd (lit 1) (fmul (lit 0.015) C1)
     in fsqrt (clamp0 (fadd (fadd (fsq deltaL) (fsq (fdiv deltaC Sc))) (fsq (fdiv deltaH Sh)))))"

text \<open>The inverse transform to XYZ as the specification words it.\<close>

definition spec_ratio :: "number \<Rightarrow> number" where
  "spec_ratio f =
    (if fgt (fmul (fmul f f) f) (lit 0.008856451) then fmul (fmul f f) f
     else fdiv (fsub f (fdiv (lit 16) (lit 116))) (lit 7.787037))"

definition spec_toXYZ :: "XYZColor \<Rightarrow> number \<Rightarrow> number \<Rightarrow> number \<Rightarrow> XYZColor" where
  "spec_toXYZ D65 l a b =
    (let fy = fdiv (fadd (fmul l (lit 100)) (lit 16)) (lit 116);
         fx = fadd (fdiv a (lit 5)) fy;
         fz = fsub fy (fdiv b (lit 2))
     in \<lparr>xyz_x = fmul (spec_ratio fx) (xyz_x D65),
         xyz_y = fmul (spec_ratio fy) (xyz_y D65),
         xyz_z = fmul (spec_ratio fz) (xyz_z D65)\<rparr>)"

section \<open>Ranges of numbers\<close>

text \<open>
  A number that is neither \<open>NaN\<close> nor negative nor the negative zero, and one that is
  at least one; both may be the positive infinity.
\<close>

fun nonneg :: "number \<Rightarrow> bool" where
  "nonneg (Fin r) = (0 \<le> r)"
| "nonneg PosInf = True"
| "nonneg _ = False"

fun ge1 :: "number \<Rightarrow> bool" where
  "ge1 (Fin r) = (1 \<le> r)"
| "ge1 PosInf = True"
| "ge1 _ = False"

text \<open>A finite number of magnitude at most \<open>2 powi k\<close>.\<close>

fun mag :: "int \<Rightarrow> number \<Rightarrow> bool" where
  "mag k (Fin r) = (\<bar>r\<bar> \<le> 2 powi k)"
| "mag k NegZero = True"
| "mag k _ = False"

section \<open>The D65 white point\<close>

text \<open>
  Modelled from the spec: the constant \<^verbatim>\<open>XYZColor.D65\<close> is defined in a file that is
  not part of the sources. The spec describes it as the D65 white point, conventionally
  \<open>X = 95.047\<close>, \<open>Y = 100\<close>, \<open>Z = 108.883\<close>, scaled consistently with the module's
  conventions. These are the two candidates: the conventional numbers, and their
  hundredths, on the scale where lightness runs over \<open>[0, 1]\<close>. The functions above
  take the white point as a parameter; the two constants serve only to show that an
  equation fails with either.
\<close>

definition D65_percent :: XYZColor where
  "D65_percent = \<lparr>xyz_x = lit 95.047, xyz_y = lit 100, xyz_z = lit 108.883\<rparr>"

definition D65_unit :: XYZColor where
  "D65_unit = \<lparr>xyz_x = lit 0.95047, xyz_y = lit 1, xyz_z = lit 1.08883\<rparr>"

text \<open>A finite number of magnitude between \<open>2 powi k\<close> and \<open>2 powi K\<close>.\<close>

fun btw :: "int \<Rightarrow> int \<Rightarrow> number \<Rightarrow> bool" where
  "btw k K (Fin r) = (2 powi k \<le> \<bar>r\<bar> \<and> \<bar>r\<bar> \<le> 2 powi K)"
| "btw k K _ = False"


text \<open>
  \<open>close_to r q\<close>: both are finite and \<open>q\<close> is within the relative distance
  \<open>1 / 2 ^ 51\<close> of \<open>r\<close>.
\<close>

fun close_to :: "number \<Rightarrow> number \<Rightarrow> bool" where
  "close_to (Fin r) (Fin q) = (\<bar>q - r\<bar> \<le> \<bar>r\<bar> / 2 ^ 51)"
| "close_to _ _ = False"

section \<open>Rounding\<close>

lemma powr_powi: "(2::real) powr (of_int k) = 2 powi k"
  by (simp add: powr_real_of_int')

lemma bexp_bounds:
  assumes "x \<noteq> 0"
  shows "2 powi bexp x \<le> \<bar>x\<bar>" and "\<bar>x\<bar> < 2 powi (bexp x + 1)"
proof -
  have pos: "0 < \<bar>x\<bar>" using assms by simp
  have "\<lfloor>log 2 \<bar>x\<bar>\<rfloor> = bexp x" by (simp add: bexp_def)
  then have "2 powr (of_int (bexp x)) \<le> \<bar>x\<bar> \<and> \<bar>x\<bar> < 2 powr (of_int (bexp x + 1))"
    using floor_log_eq_powr_iff [OF pos, of 2 "bexp x"] by simp
  then show "2 powi bexp x \<le> \<bar>x\<bar>" and "\<bar>x\<bar> < 2 powi (bexp x + 1)"
    unfolding powr_powi by simp_all
qed

lemma bexp_eq:
  assumes "2 powi k \<le> \<bar>x\<bar>" and "\<bar>x\<bar> < 2 powi (k + 1)"
  shows "bexp x = k"
proof -
  have "(0::real) < 2 powi k" by simp
  with assms have pos: "0 < \<bar>x\<bar>" by linarith
  have "2 powr (of_int k) \<le> \<bar>x\<bar> \<and> \<bar>x\<bar> < 2 powr (of_int (k + 1))"
    unfolding powr_powi using assms by simp
  then show ?thesis
    unfolding bexp_def using floor_log_eq_powr_iff [OF pos, of 2 k] by simp
qed

lemma rhe_of_int: "rhe (of_int n) = n"
  by (simp add: rhe_def)

lemma rhe_floor_le: "\<lfloor>t\<rfloor> \<le> rhe t"
  unfolding rhe_def Let_def by simp

lemma rhe_le_succ: "rhe t \<le> \<lfloor>t\<rfloor> + 1"
  unfolding rhe_def Let_def by simp

lemma rhe_mono: assumes "s \<le> t" shows "rhe s \<le> rhe t"
proof (cases "\<lfloor>s\<rfloor> = \<lfloor>t\<rfloor>")
  case True
  with assms show ?thesis unfolding rhe_def Let_def by auto
next
  case False
  with assms have lt: "\<lfloor>s\<rfloor> < \<lfloor>t\<rfloor>" using floor_mono [of s t] by linarith
  have "rhe s \<le> \<lfloor>s\<rfloor> + 1" by (rule rhe_le_succ)
  also have "\<dots> \<le> \<lfloor>t\<rfloor>" using lt by simp
  also have "\<dots> \<le> rhe t" by (rule rhe_floor_le)
  finally show ?thesis .
qed

lemma p2_add: "(2::real) powi (m + n) = 2 powi m * 2 powi n"
  by (simp add: power_int_add)

lemma p2_less_iff: "(2::real) powi m < 2 powi n \<longleftrightarrow> m < n"
proof
  assume lt: "(2::real) powi m < 2 powi n"
  show "m < n"
  proof (rule ccontr)
    assume "\<not> m < n"
    then have "n \<le> m" by simp
    then have "(2::real) powi n \<le> 2 powi m" by (rule power_int_increasing) simp
    with lt show False by simp
  qed
next
  assume "m < n"
  then show "(2::real) powi m < 2 powi n" by (rule power_int_strict_increasing) simp
qed

lemma p2_le_iff: "(2::real) powi m \<le> 2 powi n \<longleftrightarrow> m \<le> n"
  using p2_less_iff [of n m] by (simp add: not_less [symmetric])

lemma qexp_ge: "- 1074 \<le> qexp x"
  by (simp add: qexp_def)

lemma abs_less_qexp:
  assumes "x \<noteq> 0"
  shows "\<bar>x\<bar> < 2 powi (qexp x + 53)"
proof -
  have "\<bar>x\<bar> < 2 powi (bexp x + 1)" using assms by (rule bexp_bounds)
  also have "\<dots> \<le> 2 powi (qexp x + 53)"
    unfolding p2_le_iff by (simp add: qexp_def)
  finally show ?thesis .
qed

lemma rhe_abs_le:
  assumes "\<bar>t\<bar> \<le> of_int n"
  shows "\<bar>rhe t\<bar> \<le> n"
proof -
  from assms have "t \<le> of_int n" and "of_int (- n) \<le> t" by simp_all
  then have "rhe t \<le> rhe (of_int n)" and "rhe (of_int (- n)) \<le> rhe t"
    by (simp_all only: rhe_mono)
  then have "rhe t \<le> n" and "- n \<le> rhe t"
    by (simp_all only: rhe_of_int)
  then show ?thesis by simp
qed

lemma mant_le:
  shows "\<bar>rhe (x / 2 powi qexp x)\<bar> \<le> 2 ^ 53"
proof (cases "x = 0")
  case True
  then show ?thesis using rhe_of_int [of 0] by simp
next
  case False
  have "\<bar>x / 2 powi qexp x\<bar> = \<bar>x\<bar> / 2 powi qexp x" by simp
  also have "\<dots> < 2 powi (qexp x + 53) / 2 powi qexp x"
    using abs_less_qexp [OF False] by (simp add: divide_strict_right_mono)
  also have "\<dots> = 2 ^ 53" by (simp add: p2_add)
  finally have "\<bar>x / 2 powi qexp x\<bar> \<le> of_int (2 ^ 53)" by simp
  then show ?thesis by (rule rhe_abs_le)
qed


lemma rnd_zero: "rnd 0 = 0"
  using rhe_of_int [of 0] by (simp add: rnd_def)

lemma rnd_mult_qexp:
  assumes "x = of_int M * 2 powi E" and "qexp x \<le> E"
  shows "rnd x = x"
proof -
  define d where "d = nat (E - qexp x)"
  have E: "E = qexp x + int d" using assms(2) by (simp add: d_def)
  have "x / 2 powi qexp x = of_int M * 2 ^ d"
    unfolding assms(1) [symmetric] by (subst assms(1), subst E) (simp add: p2_add)
  also have "\<dots> = of_int (M * 2 ^ d)" by simp
  finally have q: "x / 2 powi qexp x = of_int (M * 2 ^ d)" .
  have "rnd x = of_int (M * 2 ^ d) * 2 powi qexp x"
    unfolding rnd_def q rhe_of_int ..
  also have "\<dots> = x / 2 powi qexp x * 2 powi qexp x" by (simp only: q)
  also have "\<dots> = x" by simp
  finally show ?thesis .
qed

lemma rnd_representable_less:
  assumes "- 1074 \<le> E" and "\<bar>M\<bar> < 2 ^ 53"
  shows "rnd (of_int M * 2 powi E) = of_int M * 2 powi E"
proof (cases "M = 0")
  case True
  then show ?thesis by (simp add: rnd_zero)
next
  case False
  define x :: real where "x = of_int M * 2 powi E"
  have nz: "x \<noteq> 0" using False by (simp add: x_def)
  have "\<bar>x\<bar> = of_int \<bar>M\<bar> * 2 powi E" by (simp add: x_def abs_mult)
  also have "\<dots> < of_int (2 ^ 53) * 2 powi E"
    using assms(2) by (intro mult_strict_right_mono) simp_all
  also have "\<dots> = 2 powi (E + 53)" by (simp add: p2_add)
  finally have "\<bar>x\<bar> < 2 powi (E + 53)" .
  with bexp_bounds(1) [OF nz] have "(2::real) powi bexp x < 2 powi (E + 53)" by simp
  then have "bexp x < E + 53" by (simp only: p2_less_iff)
  with assms(1) have "qexp x \<le> E" by (simp add: qexp_def)
  with x_def have "rnd x = x" by (rule rnd_mult_qexp)
  then show ?thesis by (simp add: x_def)
qed

lemma rnd_representable:
  assumes "- 1074 \<le> E" and "\<bar>M\<bar> \<le> 2 ^ 53"
  shows "rnd (of_int M * 2 powi E) = of_int M * 2 powi E"
proof (cases "\<bar>M\<bar> < 2 ^ 53")
  case True
  with assms(1) show ?thesis by (rule rnd_representable_less)
next
  case False
  with assms(2) have "\<bar>M\<bar> = 2 ^ 53" by simp
  then consider "M = 2 ^ 53" | "M = - (2 ^ 53)" by (auto simp: abs_if split: if_splits)
  then show ?thesis
  proof cases
    case 1
    have "rnd (of_int (2 ^ 52) * 2 powi (E + 1)) = of_int (2 ^ 52) * 2 powi (E + 1)"
      using assms(1) by (intro rnd_representable_less) simp_all
    moreover have "of_int M * 2 powi E = of_int (2 ^ 52) * (2::real) powi (E + 1)"
      using 1 by (simp add: p2_add)
    ultimately show ?thesis by simp
  next
    case 2
    have "rnd (of_int (- (2 ^ 52)) * 2 powi (E + 1)) = of_int (- (2 ^ 52)) * 2 powi (E + 1)"
      using assms(1) by (intro rnd_representable_less) simp_all
    moreover have "of_int M * 2 powi E = of_int (- (2 ^ 52)) * (2::real) powi (E + 1)"
      using 2 by (simp add: p2_add)
    ultimately show ?thesis by simp
  qed
qed

lemma rnd_idem: "rnd (rnd x) = rnd x"
  unfolding rnd_def [of x] by (rule rnd_representable [OF qexp_ge mant_le])

lemma rhe_minus: "rhe (- t) = - rhe t"
proof (cases "t = of_int \<lfloor>t\<rfloor>")
  case True
  then obtain n where "t = of_int n" ..
  then have "rhe (- t) = rhe (of_int (- n))" and "rhe t = rhe (of_int n)" by simp_all
  then show ?thesis by (simp only: rhe_of_int)
next
  case False
  then have fl: "\<lfloor>- t\<rfloor> = - \<lfloor>t\<rfloor> - 1"
    by (simp add: floor_minus ceiling_altdef)
  have "of_int \<lfloor>t\<rfloor> < t" using False by linarith
  then show ?thesis
    unfolding rhe_def Let_def fl by (auto simp: algebra_simps)
qed

lemma bexp_minus: "bexp (- x) = bexp x"
  by (simp add: bexp_def)

lemma qexp_minus: "qexp (- x) = qexp x"
  by (simp add: qexp_def bexp_minus)

lemma rnd_minus: "rnd (- x) = - rnd x"
  by (simp add: rnd_def qexp_minus rhe_minus)

lemma rnd_nonneg: "0 \<le> x \<Longrightarrow> 0 \<le> rnd x"
proof -
  assume "0 \<le> x"
  then have "0 \<le> x / 2 powi qexp x" by simp
  then have "rhe 0 \<le> rhe (x / 2 powi qexp x)" by (rule rhe_mono)
  then have "0 \<le> rhe (x / 2 powi qexp x)" using rhe_of_int [of 0] by simp
  then show ?thesis by (simp add: rnd_def)
qed

lemma rnd_nonpos: "x \<le> 0 \<Longrightarrow> rnd x \<le> 0"
  using rnd_nonneg [of "- x"] by (simp add: rnd_minus)

lemma bexp_mono:
  assumes "0 < x" and "x \<le> y"
  shows "bexp x \<le> bexp y"
proof -
  have "2 powi bexp x \<le> \<bar>x\<bar>" using assms by (intro bexp_bounds) simp
  also have "\<dots> \<le> \<bar>y\<bar>" using assms by simp
  also have "\<dots> < 2 powi (bexp y + 1)" using assms by (intro bexp_bounds) simp
  finally have "bexp x < bexp y + 1" by (simp only: p2_less_iff)
  then show ?thesis by simp
qed

lemma rnd_le_pow:
  "rnd x \<le> 2 powi (qexp x + 53)"
proof -
  have "rhe (x / 2 powi qexp x) \<le> 2 ^ 53" using mant_le [of x] by simp
  then have "real_of_int (rhe (x / 2 powi qexp x)) \<le> real_of_int (2 ^ 53)"
    by (simp only: of_int_le_iff)
  then have "rnd x \<le> of_int (2 ^ 53) * 2 powi qexp x"
    unfolding rnd_def by (intro mult_right_mono) simp_all
  also have "\<dots> = 2 powi (qexp x + 53)" by (simp add: p2_add)
  finally show ?thesis .
qed

lemma rnd_ge_pow:
  assumes "0 < x" and "qexp x \<le> bexp x"
  shows "2 powi bexp x \<le> rnd x"
proof -
  define d where "d = nat (bexp x - qexp x)"
  have b: "bexp x = qexp x + int d" using assms(2) by (simp add: d_def)
  have "2 powi bexp x \<le> \<bar>x\<bar>" using assms by (intro bexp_bounds) simp
  then have "2 powi bexp x / 2 powi qexp x \<le> x / 2 powi qexp x"
    using assms by (simp add: divide_right_mono)
  moreover have "(2::real) powi bexp x / 2 powi qexp x = of_int (2 ^ d)"
    by (subst b) (simp add: p2_add)
  ultimately have "rhe (of_int (2 ^ d)) \<le> rhe (x / 2 powi qexp x)"
    by (simp only: rhe_mono)
  then have "real_of_int (2 ^ d) \<le> real_of_int (rhe (x / 2 powi qexp x))"
    by (simp only: rhe_of_int of_int_le_iff)
  then have "real_of_int (2 ^ d) * 2 powi qexp x \<le> rnd x"
    unfolding rnd_def by (intro mult_right_mono) simp_all
  moreover have "real_of_int (2 ^ d) * 2 powi qexp x = 2 powi bexp x"
    by (subst b) (simp add: p2_add)
  ultimately show ?thesis by simp
qed

lemma rnd_mono_pos:
  assumes "0 < x" and "x \<le> y"
  shows "rnd x \<le> rnd y"
proof -
  have ypos: "0 < y" using assms by simp
  have "bexp x \<le> bexp y" using assms by (rule bexp_mono)
  then have q: "qexp x \<le> qexp y" by (simp add: qexp_def)
  show ?thesis
  proof (cases "qexp x = qexp y")
    case True
    have "x / 2 powi qexp y \<le> y / 2 powi qexp y"
      using assms(2) by (simp add: divide_right_mono)
    then have "rhe (x / 2 powi qexp y) \<le> rhe (y / 2 powi qexp y)" by (rule rhe_mono)
    then have "real_of_int (rhe (x / 2 powi qexp y)) \<le> real_of_int (rhe (y / 2 powi qexp y))"
      by (simp only: of_int_le_iff)
    then show ?thesis
      unfolding rnd_def True by (intro mult_right_mono) simp_all
  next
    case False
    with q have lt: "qexp x < qexp y" by simp
    have "- 1074 \<le> qexp x" by (rule qexp_ge)
    with lt have qy: "qexp y = bexp y - 52" by (simp add: qexp_def max_def split: if_splits)
    have "rnd x \<le> 2 powi (qexp x + 53)" by (rule rnd_le_pow)
    also have "\<dots> \<le> 2 powi bexp y" unfolding p2_le_iff using lt qy by simp
    also have "\<dots> \<le> rnd y" using ypos qy by (intro rnd_ge_pow) simp_all
    finally show ?thesis .
  qed
qed

lemma rnd_mono:
  assumes "x \<le> y"
  shows "rnd x \<le> rnd y"
proof -
  consider "0 < x" | "x \<le> 0" "0 \<le> y" | "y < 0" by linarith
  then show ?thesis
  proof cases
    case 1
    then show ?thesis using assms by (rule rnd_mono_pos)
  next
    case 2
    then have "rnd x \<le> 0" and "0 \<le> rnd y" by (simp_all add: rnd_nonpos rnd_nonneg)
    then show ?thesis by simp
  next
    case 3
    then have "0 < - y" and "- y \<le> - x" using assms by simp_all
    then have "rnd (- y) \<le> rnd (- x)" by (rule rnd_mono_pos)
    then show ?thesis by (simp add: rnd_minus)
  qed
qed

section \<open>Arithmetic on numbers\<close>

lemma fl_not_NaN: "fl x \<noteq> NaN"
  by (simp add: fl_def Let_def)

lemma fl_exact:
  assumes "rnd x = x" and "\<bar>x\<bar> < 2 ^ 1024"
  shows "fl x = Fin x"
  using assms by (auto simp: fl_def Let_def)

lemma fl_idem:
  assumes "fl x = Fin r"
  shows "fl r = Fin r"
proof -
  from assms have r: "r = rnd x" and "\<not> 2 ^ 1024 \<le> rnd x" and "\<not> rnd x \<le> - (2 ^ 1024)"
    by (auto simp: fl_def Let_def split: if_splits)
  then have "rnd r = r" and "\<bar>r\<bar> < 2 ^ 1024" by (simp_all add: rnd_idem)
  then show ?thesis by (rule fl_exact)
qed

lemma is_number_fl: "is_number (fl x)"
  by (cases "fl x") (simp_all add: fl_idem)

lemma fl_zero: "fl 0 = Fin 0"
  by (simp add: fl_def rnd_zero)

lemma rnd_one: "rnd 1 = 1"
  using rnd_representable [of 0 1] by simp

lemma fl_one: "fl 1 = Fin 1"
  by (rule fl_exact) (simp_all add: rnd_one)

lemma lit_zero: "lit 0 = Fin 0"
  by (simp add: lit_def fl_zero)

lemma lit_one: "lit 1 = Fin 1" "lit 1.0 = Fin 1"
  by (simp_all add: lit_def fl_one)

lemma is_number_signed_zero: "is_number (signed_zero s)"
  by (simp add: signed_zero_def fl_zero)

lemma is_number_signed_inf: "is_number (signed_inf s)"
  by (simp add: signed_inf_def)

lemma is_number_fadd: "is_number (fadd a b)"
  by (cases a; cases b) (simp_all add: fadd_def is_number_fl)

lemma is_number_fsub: "is_number (fsub a b)"
  by (simp add: fsub_def is_number_fadd)

lemma is_number_fmul: "is_number (fmul a b)"
  by (simp add: fmul_def is_number_fl is_number_signed_zero is_number_signed_inf)

lemma is_number_fdiv: "is_number (fdiv a b)"
  by (simp add: fdiv_def is_number_fl is_number_signed_zero is_number_signed_inf)

lemma is_number_fsqrt: "is_number (fsqrt a)"
  by (cases a) (simp_all add: is_number_fl)

lemma fdiv_one:
  assumes "is_number v"
  shows "fdiv v (Fin 1) = v"
  using assms by (cases v) (simp_all add: fdiv_def signed_zero_def signed_inf_def)

lemma fsqrt_zero: "fsqrt (Fin 0) = Fin 0"
  by (simp add: fl_zero)

lemma fsqrt_one: "fsqrt (Fin 1) = Fin 1"
  by (simp add: fl_one)

lemma fl_between:
  assumes "lo \<le> x" and "x \<le> hi" and "rnd lo = lo" and "rnd hi = hi"
    and "0 \<le> lo" and "hi < 2 ^ 1024"
  shows "\<exists>r. fl x = Fin r \<and> lo \<le> r \<and> r \<le> hi"
proof -
  have "rnd lo \<le> rnd x" and "rnd x \<le> rnd hi" using assms(1,2) by (simp_all add: rnd_mono)
  then have b: "lo \<le> rnd x" "rnd x \<le> hi" using assms(3,4) by simp_all
  with assms(5,6) have "fl x = Fin (rnd x)" using assms(1)
    by (simp add: fl_def Let_def)
  with b show ?thesis by simp
qed

lemma rnd_dyadic:
  assumes "- 1074 \<le> E" and "\<bar>M\<bar> \<le> 2 ^ 53" and "x = of_int M * 2 powi E"
  shows "rnd x = x"
  unfolding assms(3) using assms(1,2) by (rule rnd_representable)

lemma rnd_int: "\<bar>n\<bar> \<le> 2 ^ 53 \<Longrightarrow> rnd (of_int n) = of_int n"
  using rnd_representable [of 0 n] by simp

lemma fl_int: "\<bar>n\<bar> \<le> 2 ^ 53 \<Longrightarrow> fl (of_int n) = Fin (of_int n)"
proof (rule fl_exact)
  assume a: "\<bar>n\<bar> \<le> 2 ^ 53"
  then show "rnd (real_of_int n) = real_of_int n" by (rule rnd_int)
  have "\<bar>real_of_int n\<bar> = real_of_int \<bar>n\<bar>" by simp
  also have "\<dots> \<le> real_of_int (2 ^ 53)" using a by (simp only: of_int_le_iff)
  also have "\<dots> < 2 ^ 1024" by simp
  finally show "\<bar>real_of_int n\<bar> < 2 ^ 1024" .
qed

lemma fl_minus_one: "fl (- 1) = Fin (- 1)"
  using fl_int [of "- 1"] by simp

lemma rnd_two: "rnd 2 = 2"
  using rnd_int [of 2] by simp

lemma lit_045: "\<exists>r. lit 0.045 = Fin r \<and> 1 / 32 \<le> r \<and> r \<le> 1"
  unfolding lit_def
proof (rule fl_between)
  show "rnd (1 / 32) = 1 / 32" by (rule rnd_dyadic [of "- 5" 1]) simp_all
qed (simp_all add: rnd_one)

lemma lit_015: "\<exists>r. lit 0.015 = Fin r \<and> 1 / 128 \<le> r \<and> r \<le> 1"
  unfolding lit_def
proof (rule fl_between)
  show "rnd (1 / 128) = 1 / 128" by (rule rnd_dyadic [of "- 7" 1]) simp_all
qed (simp_all add: rnd_one)

lemma rhe_small: assumes "\<bar>t\<bar> < 1 / 2" shows "rhe t = 0"
proof (cases "0 \<le> t")
  case True
  with assms have "\<lfloor>t\<rfloor> = 0" by (intro floor_unique) simp_all
  with assms True show ?thesis by (simp add: rhe_def Let_def)
next
  case False
  with assms have "\<lfloor>t\<rfloor> = - 1" by (intro floor_unique) simp_all
  with assms False show ?thesis by (simp add: rhe_def Let_def)
qed

lemma rnd_underflow:
  assumes "\<bar>x\<bar> < 2 powi - 1075"
  shows "rnd x = 0"
proof (cases "x = 0")
  case True
  then show ?thesis by (simp add: rnd_zero)
next
  case False
  have "2 powi bexp x \<le> \<bar>x\<bar>" using False by (rule bexp_bounds)
  with assms have "(2::real) powi bexp x < 2 powi - 1075" by simp
  then have "bexp x < - 1075" by (simp only: p2_less_iff)
  then have q: "qexp x = - 1074" by (simp add: qexp_def)
  have "\<bar>x / 2 powi - 1074\<bar> = \<bar>x\<bar> * 2 powi 1074"
    by (simp add: power_int_minus field_simps)
  also have "\<dots> < 2 powi - 1075 * 2 powi 1074"
    using assms by (intro mult_strict_right_mono) simp_all
  also have "\<dots> = 1 / 2" by (simp add: power_int_minus field_simps)
  finally have "rhe (x / 2 powi - 1074) = 0" by (rule rhe_small)
  then show ?thesis by (simp add: rnd_def q)
qed

lemma fl_underflow:
  assumes "0 \<le> x" and "x < 2 powi - 1075"
  shows "fl x = Fin 0"
proof -
  have "rnd x = 0" using assms by (intro rnd_underflow) simp
  with assms(1) show ?thesis by (simp add: fl_def)
qed

lemma fl_overflow:
  assumes "2 powi 1024 \<le> x"
  shows "fl x = PosInf"
proof -
  have "rnd (2 powi 1024) = 2 powi 1024"
    by (rule rnd_dyadic [of 1024 1]) simp_all
  moreover have "rnd (2 powi 1024) \<le> rnd x" using assms by (rule rnd_mono)
  ultimately show ?thesis by (simp add: fl_def)
qed

lemma fl_pow2:
  assumes "- 1074 \<le> k" and "k \<le> 1023"
  shows "fl (2 powi k) = Fin (2 powi k)"
proof (rule fl_exact)
  show "rnd (2 powi k) = 2 powi k" by (rule rnd_dyadic [of k 1]) (simp_all add: assms)
  have "(2::real) powi k < 2 powi 1024" unfolding p2_less_iff using assms by simp
  then show "\<bar>(2::real) powi k\<bar> < 2 ^ 1024" by simp
qed

lemma fl_nonneg_cases:
  assumes "0 \<le> x"
  shows "fl x = PosInf \<or> fl x = Fin (rnd x)"
  using assms rnd_nonneg [OF assms] by (simp add: fl_def Let_def)

lemma nonneg_fl: "0 \<le> x \<Longrightarrow> nonneg (fl x)"
  using fl_nonneg_cases [of x] rnd_nonneg [of x] by auto

lemma ge1_fl:
  assumes "1 \<le> x"
  shows "ge1 (fl x)"
proof -
  have "rnd 1 \<le> rnd x" using assms by (rule rnd_mono)
  then have "1 \<le> rnd x" by (simp add: rnd_one)
  moreover have "fl x = PosInf \<or> fl x = Fin (rnd x)" using assms by (intro fl_nonneg_cases) simp
  ultimately show ?thesis by auto
qed

lemma nonneg_sq: "v \<noteq> NaN \<Longrightarrow> nonneg (fmul v v)"
  by (cases v) (simp_all add: fmul_def signed_zero_def signed_inf_def nonneg_fl)

lemma nonneg_fadd: "nonneg a \<Longrightarrow> nonneg b \<Longrightarrow> nonneg (fadd a b)"
  by (cases a; cases b) (simp_all add: fadd_def nonneg_fl)

lemma nonneg_fsqrt: "nonneg a \<Longrightarrow> nonneg (fsqrt a)"
  by (cases a) (simp_all add: nonneg_fl)

lemma nonneg_not_flt: "nonneg a \<Longrightarrow> \<not> flt a (Fin 0)"
  by (cases a) simp_all

lemma nonneg_fge: "nonneg a \<Longrightarrow> fge a (Fin 0)"
  by (cases a) (auto simp: fge_def feq_def)

lemma nonneg_fadd_zero: "nonneg y \<Longrightarrow> is_number y \<Longrightarrow> fadd y (Fin 0) = y"
  by (cases y) (simp_all add: fadd_def)

lemma zero_sq: "is_zero v \<Longrightarrow> fmul v v = Fin 0"
  by (cases v) (simp_all add: fmul_def signed_zero_def)

lemma nonneg_scale:
  assumes "lit q = Fin k" and "0 < k" and "nonneg c"
  shows "ge1 (fadd (Fin 1) (fmul (lit q) c))"
proof -
  have "nonneg (fmul (Fin k) c)"
    using assms(2,3) by (cases c) (simp_all add: fmul_def signed_zero_def signed_inf_def nonneg_fl)
  then show ?thesis
    unfolding assms(1) by (cases "fmul (Fin k) c") (simp_all add: fadd_def ge1_fl)
qed

lemma ge1_sc: "nonneg c \<Longrightarrow> ge1 (fadd (Fin 1) (fmul (lit 0.045) c))"
  using lit_045 nonneg_scale [of "0.045" _ c] by force

lemma ge1_sh: "nonneg c \<Longrightarrow> ge1 (fadd (Fin 1) (fmul (lit 0.015) c))"
  using lit_015 nonneg_scale [of "0.015" _ c] by force

lemma fdiv_zero_ge1: "is_zero z \<Longrightarrow> ge1 s \<Longrightarrow> is_zero (fdiv z s)"
  by (cases z; cases s) (simp_all add: fdiv_def signed_zero_def)

lemma fsub_self: "nonneg c \<Longrightarrow> c \<noteq> PosInf \<Longrightarrow> fsub c c = Fin 0"
  by (cases c) (simp_all add: fsub_def fadd_def fl_zero)

lemma fsub_feq:
  assumes "finite_number x" and "finite_number y" and "feq x y"
  shows "is_zero (fsub x y)"
  using assms by (cases x; cases y) (auto simp: fsub_def fadd_def feq_def fl_zero)

lemma sq_feq:
  assumes "finite_number x" and "finite_number y" and "feq x y"
  shows "fmul x x = fmul y y"
  using assms by (cases x; cases y) (auto simp: fmul_def feq_def signed_zero_def)

lemma finite_not_NaN: "finite_number x \<Longrightarrow> x \<noteq> NaN"
  by (cases x) simp_all

lemma rnd_pow2: "- 1074 \<le> k \<Longrightarrow> rnd (2 powi k) = 2 powi k"
  by (rule rnd_dyadic [of k 1]) simp_all

lemma rnd_abs_le:
  assumes "\<bar>x\<bar> \<le> 2 powi k" and "- 1074 \<le> k"
  shows "\<bar>rnd x\<bar> \<le> 2 powi k"
proof -
  from assms(1) have "x \<le> 2 powi k" and "- (2 powi k) \<le> x" by simp_all
  then have "rnd x \<le> rnd (2 powi k)" and "rnd (- (2 powi k)) \<le> rnd x"
    by (simp_all only: rnd_mono)
  then show ?thesis by (simp add: rnd_minus rnd_pow2 [OF assms(2)])
qed

lemma mag_fl:
  assumes "\<bar>x\<bar> \<le> 2 powi k" and "- 1074 \<le> k" and "k \<le> 1023"
  shows "mag k (fl x)"
proof -
  have r: "\<bar>rnd x\<bar> \<le> 2 powi k" using assms(1,2) by (rule rnd_abs_le)
  have "(2::real) powi k < 2 powi 1024" unfolding p2_less_iff using assms(3) by simp
  then have "(2::real) powi k < 2 ^ 1024" by simp
  with r have "\<bar>rnd x\<bar> < 2 ^ 1024" by simp
  then have "fl x = NegZero \<or> fl x = Fin (rnd x)" by (auto simp: fl_def Let_def)
  with r show ?thesis by auto
qed

lemma mag_mono: "mag j d \<Longrightarrow> j \<le> k \<Longrightarrow> mag k d"
proof (cases d)
  case (Fin r)
  assume "mag j d" and "j \<le> k"
  then have "\<bar>r\<bar> \<le> 2 powi j" and "(2::real) powi j \<le> 2 powi k"
    using Fin by (simp_all add: p2_le_iff)
  then show ?thesis using Fin by simp
qed simp_all

lemma mag_val: "mag k d \<Longrightarrow> \<bar>val d\<bar> \<le> 2 powi k"
  by (cases d) simp_all

lemma mag_not_special: "mag k d \<Longrightarrow> d \<noteq> NaN \<and> \<not> is_inf d"
  by (cases d) simp_all

lemma mag_fadd:
  assumes "mag k a" and "mag k b" and "- 1075 \<le> k" and "k \<le> 1022"
  shows "mag (k + 1) (fadd a b)"
proof -
  have "\<bar>val a + val b\<bar> \<le> 2 powi k + 2 powi k"
    using mag_val [OF assms(1)] mag_val [OF assms(2)] by linarith
  also have "\<dots> = 2 powi (k + 1)" by (simp add: p2_add)
  finally have "mag (k + 1) (fl (val a + val b))" using assms(3,4) by (intro mag_fl) simp_all
  then show ?thesis
    using mag_not_special [OF assms(1)] mag_not_special [OF assms(2)]
    by (simp add: fadd_def)
qed

lemma mag_fneg: "mag k a \<Longrightarrow> mag k (fneg a)"
  by (cases a) simp_all

lemma mag_fsub:
  assumes "mag k a" and "mag k b" and "- 1075 \<le> k" and "k \<le> 1022"
  shows "mag (k + 1) (fsub a b)"
  unfolding fsub_def using assms(1) mag_fneg [OF assms(2)] assms(3,4) by (rule mag_fadd)

lemma mag_fmul:
  assumes "mag j a" and "mag k b" and "- 1074 \<le> j + k" and "j + k \<le> 1023"
  shows "mag (j + k) (fmul a b)"
proof -
  have "\<bar>val a * val b\<bar> = \<bar>val a\<bar> * \<bar>val b\<bar>" by (rule abs_mult)
  also have "\<dots> \<le> 2 powi j * 2 powi k"
    using mag_val [OF assms(1)] mag_val [OF assms(2)] by (intro mult_mono) simp_all
  also have "\<dots> = 2 powi (j + k)" by (simp add: p2_add)
  finally have "mag (j + k) (fl (val a * val b))" using assms(3,4) by (intro mag_fl) simp_all
  then show ?thesis
    using mag_not_special [OF assms(1)] mag_not_special [OF assms(2)]
    by (simp add: fmul_def signed_zero_def)
qed

lemma sqrt_pow2_le:
  assumes "0 \<le> r" and "r \<le> 2 powi (2 * k)"
  shows "sqrt r \<le> 2 powi k"
proof -
  have "(2::real) powi (2 * k) = (2 powi k)\<^sup>2"
    by (simp add: power2_eq_square p2_add [symmetric])
  with assms(2) have "sqrt r \<le> sqrt ((2 powi k)\<^sup>2)" by (intro real_sqrt_le_mono) simp
  then show ?thesis by simp
qed

lemma mag_clamp_sqrt:
  assumes "mag (2 * k) v" and "- 1074 \<le> k" and "k \<le> 1023"
  shows "mag k (if flt v (Fin 0) then Fin 0 else fsqrt v)"
proof (cases v)
  case (Fin r)
  show ?thesis
  proof (cases "r < 0")
    case True
    then show ?thesis using Fin by simp
  next
    case False
    then have "0 \<le> r" by simp
    moreover have "r \<le> 2 powi (2 * k)" using assms(1) Fin by simp
    ultimately have "sqrt r \<le> 2 powi k" by (rule sqrt_pow2_le)
    then have "\<bar>sqrt r\<bar> \<le> 2 powi k" using \<open>0 \<le> r\<close> by simp
    then have "mag k (fl (sqrt r))" using assms(2,3) by (rule mag_fl)
    then show ?thesis using Fin False by simp
  qed
qed (use assms in simp_all)

lemma mag_fsqrt:
  assumes "mag (2 * k) v" and "nonneg v" and "- 1074 \<le> k" and "k \<le> 1023"
  shows "mag k (fsqrt v)"
  using mag_clamp_sqrt [OF assms(1,3,4)] nonneg_not_flt [OF assms(2)] by simp

lemma mag_fdiv_ge1:
  assumes "mag k a" and "ge1 s" and "- 1074 \<le> k" and "k \<le> 1023"
  shows "mag k (fdiv a s)"
proof (cases s)
  case (Fin t)
  then have t: "1 \<le> t" using assms(2) by simp
  have "\<bar>val a / t\<bar> = \<bar>val a\<bar> / t" using t by simp
  also have "\<dots> \<le> \<bar>val a\<bar> / 1" using t by (intro divide_left_mono) simp_all
  also have "\<dots> \<le> 2 powi k" using mag_val [OF assms(1)] by simp
  finally have "mag k (fl (val a / t))" using assms(3,4) by (rule mag_fl)
  then show ?thesis
    using Fin t mag_not_special [OF assms(1)] by (simp add: fdiv_def signed_zero_def)
next
  case PosInf
  then show ?thesis using mag_not_special [OF assms(1)] by (simp add: fdiv_def signed_zero_def)
qed (use assms(2) in simp_all)

lemma rhe_near:
  assumes "\<bar>t - of_int m\<bar> < 1 / 2"
  shows "rhe t = m"
proof (cases "of_int m \<le> t")
  case True
  with assms have "\<lfloor>t\<rfloor> = m" by (intro floor_unique) linarith+
  with assms True show ?thesis by (simp add: rhe_def Let_def)
next
  case False
  with assms have "\<lfloor>t\<rfloor> = m - 1" by (intro floor_unique) (simp, linarith)
  with assms False show ?thesis by (simp add: rhe_def Let_def)
qed

lemma fl_normal:
  assumes lo: "2 powi k \<le> x" and hi: "x < 2 powi (k + 1)"
    and k: "- 1022 \<le> k" "k \<le> 1022"
    and m: "\<bar>x * 2 powi (52 - k) - of_int m\<bar> < 1 / 2"
    and y: "y = of_int m * 2 powi (k - 52)"
  shows "fl x = Fin y"
proof -
  have pos: "0 < x" using lo zero_less_power_int [of "2::real" k] by linarith
  then have "bexp x = k" using lo hi by (intro bexp_eq) simp_all
  then have q: "qexp x = k - 52" using k by (simp add: qexp_def)
  have "x / 2 powi (k - 52) = x * 2 powi (52 - k)"
    by (simp add: power_int_diff)
  then have "rhe (x / 2 powi (k - 52)) = m" using m by (simp add: rhe_near)
  then have r: "rnd x = y" by (simp add: rnd_def q y)
  have "rnd x \<le> 2 powi (qexp x + 53)" by (rule rnd_le_pow)
  also have "\<dots> < 2 powi 1024" unfolding p2_less_iff q using k by simp
  finally have "rnd x < 2 ^ 1024" by simp
  moreover have "0 \<le> rnd x" using pos by (intro rnd_nonneg) simp
  ultimately show ?thesis using pos r by (simp add: fl_def Let_def)
qed

lemma fl_dyadic:
  assumes "- 1074 \<le> E" and "\<bar>M\<bar> \<le> 2 ^ 53" and "x = of_int M * 2 powi E"
    and "\<bar>x\<bar> < 2 ^ 1024"
  shows "fl x = Fin x"
  using rnd_dyadic [OF assms(1-3)] assms(4) by (rule fl_exact)

lemma sqrt_ge_pow2: assumes lo: "(2 powi k)\<^sup>2 \<le> x" shows "2 powi k \<le> sqrt x"
proof -
  have "sqrt ((2 powi k)\<^sup>2) \<le> sqrt x" using lo by (rule real_sqrt_le_mono)
  moreover have "sqrt (((2::real) powi k)\<^sup>2) = 2 powi k" by (rule real_sqrt_unique) simp_all
  ultimately show ?thesis by (simp only:)
qed

lemma sqrt_less_pow2: assumes hi: "x < (2 powi (k + 1))\<^sup>2" shows "sqrt x < 2 powi (k + 1)"
proof -
  have "sqrt x < sqrt ((2 powi (k + 1))\<^sup>2)" using hi by (rule real_sqrt_less_mono)
  moreover have "sqrt (((2::real) powi (k + 1))\<^sup>2) = 2 powi (k + 1)"
    by (rule real_sqrt_unique) simp_all
  ultimately show ?thesis by (simp only:)
qed

lemma sqrt_scaled_near:
  fixes x :: real
  assumes x0: "0 \<le> x"
    and m: "0 < m" "(of_int m - 1 / 2)\<^sup>2 < x * c\<^sup>2"
      "x * c\<^sup>2 < (of_int m + 1 / 2)\<^sup>2"
    and c: "0 < c"
  shows "\<bar>sqrt x * c - real_of_int m\<bar> < 1 / 2"
proof -
  define t where "t = sqrt x * c"
  have t0: "0 \<le> t" unfolding t_def using x0 c by simp
  have t2: "t\<^sup>2 = x * c\<^sup>2"
    unfolding t_def using x0 by (simp add: power_mult_distrib)
  have m1: "1 \<le> m" using m(1) by simp
  then have "(1::real) \<le> of_int m" by (simp only: of_int_1_le_iff)
  then have mp: "0 \<le> real_of_int m - 1 / 2" "0 \<le> real_of_int m + 1 / 2" by simp_all
  have "(real_of_int m - 1 / 2)\<^sup>2 < t\<^sup>2" using m(2) by (simp only: t2)
  then have "real_of_int m - 1 / 2 < t" using t0 by (rule power2_less_imp_less)
  moreover have "t\<^sup>2 < (real_of_int m + 1 / 2)\<^sup>2" using m(3) by (simp only: t2)
  then have "t < real_of_int m + 1 / 2" using mp(2) by (rule power2_less_imp_less)
  ultimately show ?thesis unfolding t_def by linarith
qed


lemma fl_sqrt_normal:
  assumes lo: "(2 powi k)\<^sup>2 \<le> x" and hi: "x < (2 powi (k + 1))\<^sup>2"
    and k: "- 1022 \<le> k" "k \<le> 1022"
    and m: "0 < m" "(of_int m - 1 / 2)\<^sup>2 < x * (2 powi (52 - k))\<^sup>2"
      "x * (2 powi (52 - k))\<^sup>2 < (of_int m + 1 / 2)\<^sup>2"
    and y: "y = of_int m * 2 powi (k - 52)"
  shows "fl (sqrt x) = Fin y"
proof (rule fl_normal [OF _ _ k _ y])
  have x0: "0 \<le> x" using lo zero_le_power2 [of "(2::real) powi k"] by linarith
  show "2 powi k \<le> sqrt x" using lo by (rule sqrt_ge_pow2)
  show "sqrt x < 2 powi (k + 1)" using hi by (rule sqrt_less_pow2)
  show "\<bar>sqrt x * 2 powi (52 - k) - real_of_int m\<bar> < 1 / 2"
    using x0 m by (rule sqrt_scaled_near) simp
qed

lemma sqrt_half: "fl (sqrt (1 / 2)) = Fin (6369051672525773 / 2 ^ 53)"
  by (rule fl_sqrt_normal [where k = "- 1" and m = 6369051672525773])
    (simp_all add: power2_eq_square)

lemma sq_sqrt_half:
  "fl ((6369051672525773 / 2 ^ 53) * (6369051672525773 / 2 ^ 53)) =
    Fin (4503599627370497 / 2 ^ 53)"
  by (rule fl_normal [where k = "- 1" and m = 4503599627370497]) simp_all

lemma fl_quarter: "fl (1 / 4) = Fin (1 / 4)"
  by (rule fl_dyadic [of "- 2" 1]) simp_all

lemma fl_half: "fl (1 / 2) = Fin (1 / 2)"
  by (rule fl_dyadic [of "- 1" 1]) simp_all

lemma fl_ulp: "fl (- (1 / 2 ^ 53)) = Fin (- (1 / 2 ^ 53))"
  by (rule fl_dyadic [of "- 53" "- 1"]) simp_all

lemma rnd_abs_ge:
  assumes "2 powi k \<le> \<bar>x\<bar>" and "- 1074 \<le> k"
  shows "2 powi k \<le> \<bar>rnd x\<bar>"
proof (cases "0 \<le> x")
  case True
  with assms(1) have "rnd (2 powi k) \<le> rnd x" by (intro rnd_mono) simp
  then have "2 powi k \<le> rnd x" by (simp add: rnd_pow2 [OF assms(2)])
  then show ?thesis by simp
next
  case False
  with assms(1) have "rnd (2 powi k) \<le> rnd (- x)" by (intro rnd_mono) simp
  then have "2 powi k \<le> - rnd x" by (simp add: rnd_pow2 [OF assms(2)] rnd_minus)
  then show ?thesis by simp
qed

lemma btw_fl:
  assumes "2 powi k \<le> \<bar>x\<bar>" and "\<bar>x\<bar> \<le> 2 powi K" and "- 1074 \<le> k" and "K \<le> 1023"
  shows "btw k K (fl x)"
proof -
  have "(2::real) powi k \<le> 2 powi K" using assms(1,2) by simp
  then have kK: "k \<le> K" by (simp only: p2_le_iff)
  have lo: "2 powi k \<le> \<bar>rnd x\<bar>" using assms(1,3) by (rule rnd_abs_ge)
  have hi: "\<bar>rnd x\<bar> \<le> 2 powi K" using assms(2) kK assms(3) by (intro rnd_abs_le) simp_all
  have "(0::real) < 2 powi k" by simp
  with lo have nz: "rnd x \<noteq> 0" by linarith
  have "(2::real) powi K < 2 powi 1024" unfolding p2_less_iff using assms(4) by simp
  then have "(2::real) powi K < 2 ^ 1024" by simp
  with hi have "\<bar>rnd x\<bar> < 2 ^ 1024" by simp
  with nz have "fl x = Fin (rnd x)" by (auto simp: fl_def Let_def)
  with lo hi show ?thesis by simp
qed

lemma btw_val: "btw k K d \<Longrightarrow> 2 powi k \<le> \<bar>val d\<bar> \<and> \<bar>val d\<bar> \<le> 2 powi K"
  by (cases d) simp_all

lemma btw_not_zero: "btw k K d \<Longrightarrow> \<not> is_zero d \<and> d \<noteq> NaN \<and> \<not> is_inf d"
proof (cases d)
  case (Fin r)
  assume "btw k K d"
  then have "2 powi k \<le> \<bar>r\<bar>" using Fin by simp
  moreover have "(0::real) < 2 powi k" by simp
  ultimately have "r \<noteq> 0" by linarith
  then show ?thesis using Fin by simp
qed simp_all

lemma btw_weaken: "btw k K d \<Longrightarrow> j \<le> k \<Longrightarrow> K \<le> J \<Longrightarrow> btw j J d"
proof (cases d)
  case (Fin r)
  assume "btw k K d" and "j \<le> k" and "K \<le> J"
  then have "2 powi k \<le> \<bar>r\<bar>" "\<bar>r\<bar> \<le> 2 powi K"
    and "(2::real) powi j \<le> 2 powi k" "(2::real) powi K \<le> 2 powi J"
    using Fin by (simp_all add: p2_le_iff)
  then show ?thesis using Fin by simp
qed simp_all

lemma btw_fmul:
  assumes "btw j J a" and "btw k K b" and "- 1074 \<le> j + k" and "J + K \<le> 1023"
  shows "btw (j + k) (J + K) (fmul a b)"
proof -
  note va = btw_val [OF assms(1)] and vb = btw_val [OF assms(2)]
  have e: "\<bar>val a * val b\<bar> = \<bar>val a\<bar> * \<bar>val b\<bar>" by (rule abs_mult)
  have "2 powi j * 2 powi k \<le> \<bar>val a\<bar> * \<bar>val b\<bar>"
    using va vb by (intro mult_mono) simp_all
  then have lo: "2 powi (j + k) \<le> \<bar>val a * val b\<bar>" by (simp add: p2_add e)
  have "\<bar>val a\<bar> * \<bar>val b\<bar> \<le> 2 powi J * 2 powi K"
    using va vb by (intro mult_mono) simp_all
  then have hi: "\<bar>val a * val b\<bar> \<le> 2 powi (J + K)" by (simp add: p2_add e)
  have "btw (j + k) (J + K) (fl (val a * val b))" using lo hi assms(3,4) by (rule btw_fl)
  then show ?thesis
    using btw_not_zero [OF assms(1)] btw_not_zero [OF assms(2)] by (simp add: fmul_def)
qed

lemma btw_fdiv:
  assumes "btw j J a" and "1 \<le> s" and "s \<le> 2 powi K" and "- 1074 \<le> j - K" and "J \<le> 1023"
  shows "btw (j - K) J (fdiv a (Fin s))"
proof -
  note va = btw_val [OF assms(1)]
  have s0: "0 < s" using assms(2) by simp
  have "\<bar>s\<bar> = s" using s0 by simp
  then have e: "\<bar>val a / s\<bar> = \<bar>val a\<bar> / s" by (simp add: abs_divide)
  have "2 powi j / 2 powi K \<le> \<bar>val a\<bar> / s"
    using va assms(3) s0 by (intro frac_le) simp_all
  then have lo: "2 powi (j - K) \<le> \<bar>val a / s\<bar>" unfolding e by (simp add: power_int_diff)
  have "\<bar>val a\<bar> / s \<le> \<bar>val a\<bar> / 1" using assms(2) by (intro divide_left_mono) simp_all
  then have hi: "\<bar>val a / s\<bar> \<le> 2 powi J" unfolding e using va by simp
  have "btw (j - K) J (fl (val a / s))" using lo hi assms(4,5) by (rule btw_fl)
  then show ?thesis
    using btw_not_zero [OF assms(1)] s0 by (simp add: fdiv_def)
qed

lemma btw_fsqrt:
  assumes "btw (2 * k) (2 * K) a" and "nonneg a" and "- 1074 \<le> k" and "K \<le> 1023"
  shows "btw k K (fsqrt a) \<and> nonneg (fsqrt a)"
proof (cases a)
  case (Fin r)
  then have r: "0 \<le> r" "2 powi (2 * k) \<le> r" "r \<le> 2 powi (2 * K)"
    using assms(1,2) by simp_all
  have "(2 powi k)\<^sup>2 \<le> r" using r(2) by (simp add: power2_eq_square p2_add [symmetric])
  then have lo: "2 powi k \<le> sqrt r" by (rule sqrt_ge_pow2)
  have hi: "sqrt r \<le> 2 powi K" using r(1,3) by (rule sqrt_pow2_le)
  have "0 \<le> sqrt r" using r(1) by simp
  then have "\<bar>sqrt r\<bar> = sqrt r" by simp
  then have "btw k K (fl (sqrt r))" using lo hi assms(3,4) by (intro btw_fl) simp_all
  moreover have "nonneg (fl (sqrt r))" using r(1) by (intro nonneg_fl) simp
  ultimately show ?thesis using Fin r(1) by simp
qed (use assms(1) in simp_all)

lemma fadd_nonneg_val:
  assumes "nonneg a" and "nonneg b" and "mag K a" and "mag K b" and "- 1075 \<le> K" and "K \<le> 1022"
  shows "fadd a b = Fin (rnd (val a + val b)) \<and> 0 \<le> val a \<and> 0 \<le> val b"
proof -
  obtain ra where a: "a = Fin ra" "0 \<le> ra" using assms(1,3) by (cases a) simp_all
  obtain rb where b: "b = Fin rb" "0 \<le> rb" using assms(2,4) by (cases b) simp_all
  have "mag (K + 1) (fadd a b)" using assms(3-6) by (rule mag_fadd)
  moreover have "nonneg (fadd a b)" using assms(1,2) by (rule nonneg_fadd)
  ultimately obtain r where r: "fadd a b = Fin r" by (cases "fadd a b") simp_all
  have "fadd a b = fl (ra + rb)" by (simp add: a b fadd_def)
  moreover have "fl (ra + rb) = PosInf \<or> fl (ra + rb) = Fin (rnd (ra + rb))"
    using a(2) b(2) by (intro fl_nonneg_cases) simp
  ultimately show ?thesis using r a b by auto
qed

lemma fadd_lower:
  assumes "nonneg a" and "nonneg b" and "mag K a" and "mag K b" and "- 1075 \<le> K" and "K \<le> 1022"
    and "btw k K a \<or> btw k K b" and "- 1074 \<le> k"
  shows "btw k (K + 1) (fadd a b)"
proof -
  note f = fadd_nonneg_val [OF assms(1-6)]
  have "2 powi k \<le> val a + val b"
    using assms(7) f btw_val [of k K a] btw_val [of k K b] by auto
  then have "rnd (2 powi k) \<le> rnd (val a + val b)" by (rule rnd_mono)
  then have lo: "2 powi k \<le> rnd (val a + val b)" by (simp add: rnd_pow2 [OF assms(8)])
  have "mag (K + 1) (fadd a b)" using assms(3-6) by (rule mag_fadd)
  with f lo show ?thesis by simp
qed

lemma val_fneg: "mag K b \<Longrightarrow> val (fneg b) = - val b"
  by (cases b) simp_all

lemma fsub_btw:
  assumes "mag K a" and "mag K b" and "2 powi k \<le> \<bar>val a - val b\<bar>"
    and "- 1074 \<le> k" and "K \<le> 1022"
  shows "btw k (K + 1) (fsub a b)"
proof -
  have "(0::real) < 2 powi k" by simp
  with assms(3) have ne: "val a - val b \<noteq> 0" by linarith
  have nb: "mag K (fneg b)" using assms(2) by (rule mag_fneg)
  have "\<not> (a = NegZero \<and> fneg b = NegZero)"
  proof
    assume "a = NegZero \<and> fneg b = NegZero"
    then have "val a = 0" and "val (fneg b) = 0" by simp_all
    with ne val_fneg [OF assms(2)] show False by simp
  qed
  then have "fsub a b = fl (val a - val b)"
    using mag_not_special [OF assms(1)] mag_not_special [OF nb] val_fneg [OF assms(2)]
    by (auto simp: fsub_def fadd_def)
  moreover have "\<bar>val a - val b\<bar> \<le> 2 powi K + 2 powi K"
    using mag_val [OF assms(1)] mag_val [OF assms(2)] by linarith
  then have "\<bar>val a - val b\<bar> \<le> 2 powi (K + 1)" by (simp add: p2_add)
  then have "btw k (K + 1) (fl (val a - val b))"
    using assms(3,4,5) by (intro btw_fl) simp_all
  ultimately show ?thesis by simp
qed

lemma scale_bounds:
  assumes "lit q = Fin t" and "0 < t" and "t \<le> 1" and "nonneg c" and "mag K c"
    and "0 \<le> K" and "K \<le> 1022"
  shows "\<exists>s. fadd (Fin 1) (fmul (lit q) c) = Fin s \<and> 1 \<le> s \<and> s \<le> 2 powi (K + 1)"
proof -
  obtain r where c: "c = Fin r" "0 \<le> r" "r \<le> 2 powi K"
    using assms(4,5) by (cases c) simp_all
  have one: "(1::real) \<le> 2 powi K" using assms(6) by (intro one_le_power_int) simp_all
  have top: "(2::real) powi (K + 1) < 2 ^ 1024"
    using p2_less_iff [of "K + 1" 1024] assms(7) by simp
  have r2: "rnd (2 powi (K + 1)) = 2 powi (K + 1)" using assms(6) by (intro rnd_pow2) simp
  have "\<exists>p. fmul (Fin t) (Fin r) = Fin p \<and> 0 \<le> p \<and> p \<le> 2 powi K"
  proof (cases "r = 0")
    case True
    then show ?thesis using assms(2) by (simp add: fmul_def signed_zero_def)
  next
    case False
    have "t * r \<le> 1 * 2 powi K" using assms(2,3) c(2,3) by (intro mult_mono) simp_all
    then have "\<bar>t * r\<bar> \<le> 2 powi K" using assms(2) c(2) by simp
    then have "mag K (fl (t * r))" using assms(6,7) by (intro mag_fl) simp_all
    moreover have "nonneg (fl (t * r))" using assms(2) c(2) by (intro nonneg_fl) simp
    ultimately have "\<exists>p. fl (t * r) = Fin p \<and> 0 \<le> p \<and> p \<le> 2 powi K"
      by (cases "fl (t * r)") simp_all
    then show ?thesis using False assms(2) by (simp add: fmul_def)
  qed
  then obtain p where p: "fmul (Fin t) (Fin r) = Fin p" "0 \<le> p" "p \<le> 2 powi K" by blast
  have "1 + p \<le> 2 powi K + 2 powi K" using one p(3) by linarith
  then have "1 + p \<le> 2 powi (K + 1)" by (simp add: p2_add)
  then have "\<exists>s. fl (1 + p) = Fin s \<and> 1 \<le> s \<and> s \<le> 2 powi (K + 1)"
    using p(2) top r2 by (intro fl_between) (simp_all add: rnd_one)
  then show ?thesis by (simp add: assms(1) c(1) p(1) fadd_def)
qed

lemma sq_upper:
  assumes "mag K d" and "(val d)\<^sup>2 \<le> 2 powi k" and "- 1074 \<le> k" and "k \<le> 1023"
  shows "\<exists>r. fmul d d = Fin r \<and> 0 \<le> r \<and> r \<le> 2 powi k"
proof (cases "is_zero d")
  case True
  then show ?thesis by (simp add: zero_sq)
next
  case False
  then obtain v where d: "d = Fin v" "v \<noteq> 0" using assms(1) by (cases d) simp_all
  have "\<bar>v * v\<bar> \<le> 2 powi k" using assms(2) by (simp add: d power2_eq_square)
  then have "mag k (fl (v * v))" using assms(3,4) by (rule mag_fl)
  moreover have "nonneg (fl (v * v))" by (intro nonneg_fl) simp
  ultimately have "\<exists>r. fl (v * v) = Fin r \<and> 0 \<le> r \<and> r \<le> 2 powi k"
    by (cases "fl (v * v)") simp_all
  then show ?thesis using d by (simp add: fmul_def)
qed

lemma sq_stats:
  assumes "mag K d" and "- 537 \<le> K" and "K \<le> 511"
  shows "nonneg (fmul d d) \<and> mag (2 * K) (fmul d d)"
proof -
  have "d \<noteq> NaN" using mag_not_special [OF assms(1)] by simp
  then have "nonneg (fmul d d)" by (rule nonneg_sq)
  moreover have "mag (K + K) (fmul d d)" using assms by (intro mag_fmul) simp_all
  ultimately show ?thesis by simp
qed

lemma sq_btw:
  assumes "btw k K d" and "- 537 \<le> k" and "K \<le> 511"
  shows "btw (2 * k) (2 * K) (fmul d d)"
  using btw_fmul [OF assms(1) assms(1)] assms(2,3) by simp

lemma fsub_pos:
  assumes "mag K a" and "mag K b" and "2 powi k \<le> val a - val b"
    and "- 1074 \<le> k" and "K \<le> 1022"
  shows "btw k (K + 1) (fsub a b) \<and> nonneg (fsub a b)"
proof -
  have p: "(0::real) < 2 powi k" by simp
  with assms(3) have pos: "0 < val a - val b" by linarith
  then have "2 powi k \<le> \<bar>val a - val b\<bar>" using assms(3) by simp
  with assms(1,2) have b: "btw k (K + 1) (fsub a b)" using assms(4,5) by (rule fsub_btw)
  have nb: "mag K (fneg b)" using assms(2) by (rule mag_fneg)
  have "\<not> (a = NegZero \<and> fneg b = NegZero)"
  proof
    assume "a = NegZero \<and> fneg b = NegZero"
    then have "val a = 0" and "val (fneg b) = 0" by simp_all
    with pos val_fneg [OF assms(2)] show False by simp
  qed
  then have "fsub a b = fl (val a - val b)"
    using mag_not_special [OF assms(1)] mag_not_special [OF nb] val_fneg [OF assms(2)]
    by (auto simp: fsub_def fadd_def)
  moreover have "nonneg (fl (val a - val b))" using pos by (intro nonneg_fl) simp
  ultimately show ?thesis using b by simp
qed

lemma abs_ge_of_sq:
  fixes v :: real
  assumes "2 powi (2 * k) \<le> v\<^sup>2"
  shows "2 powi k \<le> \<bar>v\<bar>"
proof -
  have "(2 powi k)\<^sup>2 \<le> \<bar>v\<bar>\<^sup>2"
    using assms by (simp add: power2_eq_square p2_add [symmetric])
  then show ?thesis by (rule power2_le_imp_le) simp
qed

lemma mag_nonzero_btw:
  assumes "mag K d" and "2 powi k \<le> \<bar>val d\<bar>"
  shows "btw k K d"
proof (cases d)
  case (Fin v)
  then show ?thesis using assms by simp
next
  case NegZero
  have "(0::real) < 2 powi k" by simp
  with assms(2) NegZero show ?thesis by simp
qed (use assms(1) in simp_all)

lemma pow_gap: "(2::real) powi - 201 \<le> 2 powi - 200 - 2 powi - 202"
proof -
  have "(2::real) powi - 200 = 4 * 2 powi - 202" and "(2::real) powi - 201 = 2 * 2 powi - 202"
    using p2_add [of 2 "- 202"] p2_add [of 1 "- 202"] by simp_all
  moreover have "(0::real) \<le> 2 powi - 202" by simp
  ultimately show ?thesis by linarith
qed

lemma rhe_error: "\<bar>of_int (rhe t) - t\<bar> \<le> 1 / 2"
proof -
  define f where "f = \<lfloor>t\<rfloor>"
  define d where "d = t - of_int f"
  have d: "0 \<le> d" "d < 1" unfolding d_def f_def by linarith+
  have t: "t = of_int f + d" by (simp add: d_def)
  have "rhe t = f \<and> d \<le> 1 / 2 \<or> rhe t = f + 1 \<and> 1 / 2 \<le> d"
    unfolding rhe_def Let_def f_def [symmetric] d_def [symmetric] by auto
  then show ?thesis using d unfolding t by auto
qed

lemma rnd_error: "\<bar>rnd x - x\<bar> \<le> 2 powi qexp x / 2"
proof -
  define q where "q = qexp x"
  have p: "(0::real) < 2 powi q" by simp
  have "rnd x - x = (of_int (rhe (x / 2 powi q)) - x / 2 powi q) * 2 powi q"
    by (simp add: rnd_def q_def algebra_simps)
  then have "\<bar>rnd x - x\<bar> = \<bar>of_int (rhe (x / 2 powi q)) - x / 2 powi q\<bar> * 2 powi q"
    by (simp add: abs_mult)
  also have "\<dots> \<le> 1 / 2 * 2 powi q"
    using rhe_error [of "x / 2 powi q"] by (intro mult_right_mono) simp_all
  finally show ?thesis by (simp add: q_def)
qed

lemma rnd_near:
  assumes "rnd x = x" and "0 < x" and "2 powi bexp x \<le> t" and "t < 2 powi (bexp x + 1)"
    and "\<bar>t - x\<bar> < 2 powi qexp x / 2"
  shows "rnd t = x"
proof -
  have t0: "0 < t" using assms(3) zero_less_power_int [of "2::real" "bexp x"] by linarith
  then have "bexp t = bexp x" using assms(3,4) by (intro bexp_eq) simp_all
  then have q: "qexp t = qexp x" by (simp add: qexp_def)
  define q where "q = qexp x"
  define m where "m = rhe (x / 2 powi q)"
  have x: "x = of_int m * 2 powi q" using assms(1) by (simp add: rnd_def m_def q_def)
  have p: "(0::real) < 2 powi q" by simp
  have "t / 2 powi q - of_int m = (t - x) / 2 powi q"
    by (subst x) (simp add: diff_divide_distrib)
  then have "\<bar>t / 2 powi q - of_int m\<bar> = \<bar>t - x\<bar> / 2 powi q" by (simp add: abs_divide)
  also have "\<dots> < (2 powi q / 2) / 2 powi q"
    using assms(5) p unfolding q_def by (intro divide_strict_right_mono) simp_all
  also have "\<dots> = 1 / 2" by simp
  finally have "rhe (t / 2 powi q) = m" by (rule rhe_near)
  then have "rnd t = of_int m * 2 powi q" by (simp add: rnd_def \<open>qexp t = qexp x\<close> q_def)
  then show ?thesis by (simp add: x)
qed

lemma rnd_sqrt_sq:
  assumes rx: "rnd x = x" and x0: "0 < x" and lo: "- 500 \<le> bexp x" and hi: "bexp x \<le> 500"
  shows "rnd (sqrt (rnd (x * x))) = x"
proof -
  define e where "e = bexp x"
  define z where "z = x * x"
  define y where "y = rnd z"
  define t where "t = sqrt y"
  have xe: "2 powi e \<le> x" "x < 2 powi (e + 1)"
    using bexp_bounds [of x] x0 by (simp_all add: e_def)
  have q: "qexp x = e - 52" using lo by (simp add: qexp_def e_def)
  have pe: "(0::real) < 2 powi e" by simp
  have zlo: "2 powi (2 * e) \<le> z"
    using mult_mono [OF xe(1) xe(1)] pe x0 by (simp add: z_def p2_add [symmetric])
  have zhi: "z < 2 powi (2 * e + 2)"
  proof -
    have "x * x < 2 powi (e + 1) * 2 powi (e + 1)"
      using xe(2) x0 by (intro mult_strict_mono) simp_all
    then show ?thesis by (simp add: z_def p2_add [symmetric] algebra_simps)
  qed
  have z0: "0 < z" using x0 by (simp add: z_def)
  have "rnd (2 powi (2 * e)) \<le> rnd z" using zlo by (rule rnd_mono)
  then have ylo: "2 powi (2 * e) \<le> y" using lo by (simp add: y_def e_def rnd_pow2)
  then have y0: "0 < y" using zero_less_power_int [of "2::real" "2 * e"] by linarith
  have "(2 powi e)\<^sup>2 \<le> y" using ylo by (simp add: power2_eq_square p2_add [symmetric])
  then have tlo: "2 powi e \<le> t" unfolding t_def by (rule sqrt_ge_pow2)
  have t0: "0 < t" using tlo pe by linarith
  have tt: "t * t = y" unfolding t_def using y0 by simp
  have "(t - x) * (t + x) = y - z" by (simp add: algebra_simps tt z_def)
  then have "t - x = (y - z) / (t + x)" using t0 x0 by (simp add: field_simps)
  then have d: "\<bar>t - x\<bar> = \<bar>y - z\<bar> / (t + x)" using t0 x0 by (simp add: abs_divide)
  have s0: "0 < t + x" using t0 x0 by simp
  have near: "\<bar>t - x\<bar> < 2 powi (e - 53)"
  proof (cases "z < 2 powi (2 * e + 1)")
    case True
    then have "bexp z = 2 * e" using zlo z0 by (intro bexp_eq) simp_all
    then have "qexp z = 2 * e - 52" using lo by (simp add: qexp_def e_def)
    then have "\<bar>y - z\<bar> \<le> 2 powi (2 * e - 52) / 2" using rnd_error [of z] by (simp add: y_def)
    also have "\<dots> = 2 powi (2 * e - 53)" using p2_add [of "2 * e - 53" 1] by simp
    finally have yz: "\<bar>y - z\<bar> \<le> 2 powi (2 * e - 53)" .
    have "2 powi e + 2 powi e \<le> t + x" using tlo xe(1) by linarith
    then have sx: "2 powi (e + 1) \<le> t + x" by (simp add: p2_add)
    have "\<bar>y - z\<bar> / (t + x) \<le> 2 powi (2 * e - 53) / 2 powi (e + 1)"
      using yz sx by (intro frac_le) simp_all
    also have "\<dots> = 2 powi (e - 54)" by (simp add: power_int_diff [symmetric])
    also have "\<dots> < 2 powi (e - 53)" unfolding p2_less_iff by simp
    finally show ?thesis unfolding d .
  next
    case False
    then have zl: "2 powi (2 * e + 1) \<le> z" by simp
    then have "bexp z = 2 * e + 1" using zhi z0 by (intro bexp_eq) (simp_all add: algebra_simps)
    then have "qexp z = 2 * e - 51" using lo by (simp add: qexp_def e_def)
    then have "\<bar>y - z\<bar> \<le> 2 powi (2 * e - 51) / 2" using rnd_error [of z] by (simp add: y_def)
    also have "\<dots> = 2 powi (2 * e - 52)" using p2_add [of "2 * e - 52" 1] by simp
    finally have yz: "\<bar>y - z\<bar> \<le> 2 powi (2 * e - 52)" .
    have "x \<noteq> 2 powi e"
    proof
      assume "x = 2 powi e"
      then have "z = 2 powi (2 * e)" by (simp add: z_def p2_add [symmetric])
      with zl have "(2::real) powi (2 * e + 1) \<le> 2 powi (2 * e)" by simp
      then show False by (simp only: p2_le_iff)
    qed
    with xe(1) have "2 powi e < x" by simp
    then have "2 powi e + 2 powi e < t + x" using tlo by linarith
    then have sx: "2 powi (e + 1) < t + x" by (simp add: p2_add)
    have "\<bar>y - z\<bar> / (t + x) \<le> 2 powi (2 * e - 52) / (t + x)"
      using yz s0 by (intro divide_right_mono) simp_all
    also have "\<dots> < 2 powi (2 * e - 52) / 2 powi (e + 1)"
      using sx s0 by (intro divide_strict_left_mono) simp_all
    also have "\<dots> = 2 powi (e - 53)" by (simp add: power_int_diff [symmetric])
    finally show ?thesis unfolding d .
  qed
  have top: "x \<le> 2 powi (e + 1) - 2 powi (e - 52)"
  proof -
    define m where "m = rhe (x / 2 powi (e - 52))"
    have xm: "x = of_int m * 2 powi (e - 52)" using rx by (simp add: rnd_def q m_def)
    have "(2::real) powi (53 + (e - 52)) = 2 powi 53 * 2 powi (e - 52)" by (rule p2_add)
    moreover have "53 + (e - 52) = e + 1" by simp
    ultimately have pp: "(2::real) powi (e + 1) = 2 ^ 53 * 2 powi (e - 52)" by simp
    have "of_int m * 2 powi (e - 52) < 2 ^ 53 * (2::real) powi (e - 52)"
      using xe(2) unfolding xm [symmetric] pp .
    then have "real_of_int m < 2 ^ 53" by simp
    then have "real_of_int m < real_of_int (2 ^ 53)" by simp
    then have "m < 2 ^ 53" by (simp only: of_int_less_iff)
    then have "m \<le> 2 ^ 53 - 1" by simp
    then have "real_of_int m \<le> real_of_int (2 ^ 53 - 1)" by (simp only: of_int_le_iff)
    then have "real_of_int m * 2 powi (e - 52) \<le> real_of_int (2 ^ 53 - 1) * 2 powi (e - 52)"
      by (intro mult_right_mono) simp_all
    also have "\<dots> = 2 powi (e + 1) - 2 powi (e - 52)"
      unfolding pp by (simp add: algebra_simps)
    finally show ?thesis by (simp add: xm [symmetric])
  qed
  have "t < x + 2 powi (e - 53)" using near by linarith
  also have "\<dots> \<le> 2 powi (e + 1) - 2 powi (e - 52) + 2 powi (e - 53)" using top by simp
  also have "\<dots> < 2 powi (e + 1)"
    using p2_less_iff [of "e - 53" "e - 52"] by simp
  finally have thi: "t < 2 powi (e + 1)" .
  have "2 powi qexp x / 2 = (2::real) powi (e - 53)"
    unfolding q using p2_add [of "e - 53" 1] by simp
  then have "\<bar>t - x\<bar> < 2 powi qexp x / 2" using near by simp
  then have "rnd t = x"
    using rx x0 tlo thi unfolding e_def by (rule rnd_near [rotated 4])
  then show ?thesis by (simp add: t_def y_def z_def)
qed

lemma rhe_tie:
  assumes "\<bar>t - of_int m\<bar> = 1 / 2" and "even m"
  shows "rhe t = m"
proof (cases "of_int m \<le> t")
  case True
  with assms(1) have t: "t = of_int m + 1 / 2" by simp
  then have "\<lfloor>t\<rfloor> = m" by (intro floor_unique) simp_all
  with t assms(2) show ?thesis by (simp add: rhe_def Let_def)
next
  case False
  with assms(1) have t: "t = of_int (m - 1) + 1 / 2" by simp
  then have "\<lfloor>t\<rfloor> = m - 1" by (intro floor_unique) simp_all
  with t assms(2) show ?thesis by (simp add: rhe_def Let_def)
qed

lemma fl_normal_tie:
  assumes lo: "2 powi k \<le> x" and hi: "x < 2 powi (k + 1)"
    and k: "- 1022 \<le> k" "k \<le> 1022"
    and m: "\<bar>x * 2 powi (52 - k) - of_int m\<bar> = 1 / 2" "even m"
    and y: "y = of_int m * 2 powi (k - 52)"
  shows "fl x = Fin y"
proof -
  have pos: "0 < x" using lo zero_less_power_int [of "2::real" k] by linarith
  then have "bexp x = k" using lo hi by (intro bexp_eq) simp_all
  then have q: "qexp x = k - 52" using k by (simp add: qexp_def)
  have "x / 2 powi (k - 52) = x * 2 powi (52 - k)"
    by (simp add: power_int_diff)
  then have "rhe (x / 2 powi (k - 52)) = m" using m by (simp add: rhe_tie)
  then have r: "rnd x = y" by (simp add: rnd_def q y)
  have "rnd x \<le> 2 powi (qexp x + 53)" by (rule rnd_le_pow)
  also have "\<dots> < 2 powi 1024" unfolding p2_less_iff q using k by simp
  finally have "rnd x < 2 ^ 1024" by simp
  moreover have "0 \<le> rnd x" using pos by (intro rnd_nonneg) simp
  ultimately show ?thesis using pos r by (simp add: fl_def Let_def)
qed

section \<open>The number model on known values\<close>

text \<open>
  The model reproduces what binary64 arithmetic is known to do: \<open>0.1\<close> is not a
  binary64 value, \<open>0.1 + 0.2\<close> is a tie rounded to even and differs from \<open>0.3\<close>,
  \<open>1 / 3\<close> and the root of \<open>2\<close> are rounded to 53 bits, the product
  \<open>2 powi 1023 * 2\<close> overflows, and the zeros are signed.
\<close>

lemma check_tenth: "lit 0.1 = Fin (3602879701896397 / 36028797018963968)"
proof -
  have a: "fl (1 / 10) = Fin (3602879701896397 / 36028797018963968)"
    by (rule fl_normal [where k = "- 4" and m = 7205759403792794]) simp_all
  show ?thesis using a by (simp add: lit_def)
qed

lemma check_sum:
  "fadd (lit 0.1) (lit 0.2) = Fin (1351079888211149 / 4503599627370496) \<and> lit 0.3 = Fin (5404319552844595 / 18014398509481984) \<and>
   \<not> feq (fadd (lit 0.1) (lit 0.2)) (lit 0.3)"
proof -
  have a: "fl (1 / 10) = Fin (3602879701896397 / 36028797018963968)"
    by (rule fl_normal [where k = "- 4" and m = 7205759403792794]) simp_all
  have b: "fl (2 / 10) = Fin (3602879701896397 / 18014398509481984)"
    by (rule fl_normal [where k = "- 3" and m = 7205759403792794]) simp_all
  have c: "fl (3 / 10) = Fin (5404319552844595 / 18014398509481984)"
    by (rule fl_normal [where k = "- 2" and m = 5404319552844595]) simp_all
  have s: "fl ((3602879701896397 / 36028797018963968) + (3602879701896397 / 18014398509481984)) = Fin (1351079888211149 / 4503599627370496)"
    by (rule fl_normal_tie [where k = "- 2" and m = 5404319552844596]) simp_all
  have l: "lit 0.1 = Fin (3602879701896397 / 36028797018963968)" "lit 0.2 = Fin (3602879701896397 / 18014398509481984)" "lit 0.3 = Fin (5404319552844595 / 18014398509481984)"
    using a b c by (simp_all add: lit_def)
  have "fadd (lit 0.1) (lit 0.2) = Fin (1351079888211149 / 4503599627370496)"
    unfolding l using s by (simp add: fadd_def)
  then show ?thesis unfolding l by (simp add: feq_def)
qed

lemma check_third: "fdiv (Fin 1) (Fin 3) = Fin (6004799503160661 / 18014398509481984)"
proof -
  have t: "fl (1 / 3) = Fin (6004799503160661 / 18014398509481984)"
    by (rule fl_normal [where k = "- 2" and m = 6004799503160661]) simp_all
  show ?thesis using t by (simp add: fdiv_def)
qed

lemma check_sqrt_two: "fsqrt (Fin 2) = Fin (6369051672525773 / 2 ^ 52)"
proof -
  have "fl (sqrt 2) = Fin (6369051672525773 / 2 ^ 52)"
    by (rule fl_sqrt_normal [where k = 0 and m = 6369051672525773]) (simp_all add: power2_eq_square)
  then show ?thesis by simp
qed

lemma check_overflow: "fmul (Fin (2 powi 1023)) (Fin 2) = PosInf"
proof -
  have "(2::real) powi 1023 * 2 = 2 powi 1024" using p2_add [of 1023 1] by simp
  then have "fl (2 powi 1023 * 2) = PosInf" by (simp add: fl_overflow)
  then show ?thesis by (simp add: fmul_def)
qed

lemma check_signed_zero:
  "fmul (Fin (- 1)) (Fin 0) = NegZero" "fadd NegZero (Fin 0) = Fin 0" "feq NegZero (Fin 0)"
  "fdiv (Fin 1) NegZero = NegInf" "fsqrt (Fin (- 1)) = NaN" "\<not> flt NaN (Fin 0)"
  by (simp_all add: fmul_def fadd_def fdiv_def feq_def signed_zero_def signed_inf_def fl_zero)

section \<open>The store\<close>

lemma holds_new: "holds (snd (new_LABColor h l a b)) (fst (new_LABColor h l a b)) l a b"
  by (simp add: holds_def new_LABColor_def alloc_def)

lemma holds_get: "holds h c l a b \<Longrightarrow> get_l h c = l \<and> get_a h c = a \<and> get_b h c = b"
  by (simp add: holds_def get_l_def get_a_def get_b_def)

lemma holds_alloc: "holds h c l a b \<Longrightarrow> holds (snd (alloc h xs)) c l a b"
  by (simp add: holds_def alloc_def nth_append)

lemma holds_mutate: "holds h c l a b \<Longrightarrow> r \<noteq> values_ref c \<Longrightarrow> holds (mutate h r xs) c l a b"
  by (simp add: holds_def mutate_def)

lemma heap_after_old: "r < length h \<Longrightarrow> heap_after h rc ! r = h ! r \<and> r < length (heap_after h rc)"
  by (cases "(h, rc)" rule: heap_after.cases) (simp_all add: toArray_def alloc_def nth_append)

lemma foldl_heap_after_old:
  "r < length h \<Longrightarrow> foldl heap_after h cs ! r = h ! r \<and> r < length (foldl heap_after h cs)"
proof (induction cs arbitrary: h)
  case Nil
  then show ?case by simp
next
  case (Cons rc cs)
  from heap_after_old [OF Cons.prems, of rc]
  have "heap_after h rc ! r = h ! r" and "r < length (heap_after h rc)" by simp_all
  with Cons.IH [of "heap_after h rc"] show ?case by simp
qed

section \<open>The distance and its specification\<close>

lemma dist_spec:
  assumes "holds h this l1 a1 b1" and "holds h color l2 a2 b2"
  shows "distanceTo h this color = spec_cie94 l1 a1 b1 l2 a2 b2"
proof -
  have tv: "h ! values_ref this = [l1, a1, b1]" and cv: "h ! values_ref color = [l2, a2, b2]"
    using assms by (simp_all add: holds_def)
  have one: "fdiv (fsub l1 l2) (Fin 1) = fsub l1 l2"
    by (rule fdiv_one) (rule is_number_fsub)
  show ?thesis
    unfolding distanceTo_def spec_cie94_def tv cv
    by (simp add: Let_def fsq_def clamp0_def spec_chroma_def spec_radicand_def lit_one lit_zero
        one fl_zero)
qed

section \<open>Array export\<close>

text \<open>
  C5: for a colour built as \<^verbatim>\<open>new LABColor(l, a, b)\<close>, \<^verbatim>\<open>toArray()\<close> returns a new
  array holding \<open>l\<close>, \<open>a\<close>, \<open>b\<close> in this order. It is a copy: its reference differs from
  the private one, so whatever is done to the returned array, the accessors still return
  \<open>l\<close>, \<open>a\<close>, \<open>b\<close> and the next \<^verbatim>\<open>toArray()\<close> again returns \<open>[l, a, b]\<close>.
\<close>

theorem toArray_fresh_copy:
  assumes "holds h c l a b"
  shows "case toArray h c of (r, h') \<Rightarrow>
    h' ! r = [l, a, b] \<and> r \<noteq> values_ref c \<and> length h \<le> r \<and>
    (\<forall>xs. get_l (mutate h' r xs) c = l \<and> get_a (mutate h' r xs) c = a \<and>
          get_b (mutate h' r xs) c = b \<and>
          (case toArray (mutate h' r xs) c of (r', h'') \<Rightarrow> h'' ! r' = [l, a, b]))"
  using assms
  by (simp add: holds_def toArray_def alloc_def mutate_def get_l_def get_a_def get_b_def
      nth_append)

theorem toArray_fresh_copy_witness:
  "holds [[Fin 1, Fin 2, Fin 3]] \<lparr>values_ref = 0\<rparr> (Fin 1) (Fin 2) (Fin 3) \<and>
   toArray [[Fin 1, Fin 2, Fin 3]] \<lparr>values_ref = 0\<rparr> =
     (1, [[Fin 1, Fin 2, Fin 3], [Fin 1, Fin 2, Fin 3]]) \<and>
   get_a (mutate [[Fin 1, Fin 2, Fin 3], [Fin 1, Fin 2, Fin 3]] 1 [NaN]) \<lparr>values_ref = 0\<rparr> = Fin 2"
proof -
  have h: "holds [[Fin 1, Fin 2, Fin 3]] \<lparr>values_ref = 0\<rparr> (Fin 1) (Fin 2) (Fin 3)"
    by (simp add: holds_def)
  have t: "toArray [[Fin 1, Fin 2, Fin 3]] \<lparr>values_ref = 0\<rparr> =
     (1, [[Fin 1, Fin 2, Fin 3], [Fin 1, Fin 2, Fin 3]])"
    by (simp add: toArray_def alloc_def)
  from toArray_fresh_copy [OF h] t h show ?thesis by simp
qed

section \<open>Construction and immutability\<close>

text \<open>
  C8: \<^verbatim>\<open>new LABColor(l, a, b)\<close> stores the three given numbers as they are, whatever
  they are (there is no validation and no clamping; an infinity or \<open>NaN\<close> is stored as
  well); the accessors return the stored components; and after any sequence of calls of
  \<^verbatim>\<open>distanceTo\<close>, \<^verbatim>\<open>distanceToGray\<close>, \<^verbatim>\<open>toArray\<close>, \<^verbatim>\<open>toXYZ\<close>, \<^verbatim>\<open>toRGB\<close> and
  \<^verbatim>\<open>toSRGB\<close>, on this colour or on any other, the stored triple is the same.
\<close>

theorem LABColor_immutable:
  "case new_LABColor h l a b of (c, h') \<Rightarrow>
     h' ! values_ref c = [l, a, b] \<and> get_l h' c = l \<and> get_a h' c = a \<and> get_b h' c = b \<and>
     (\<forall>cs. foldl heap_after h' cs ! values_ref c = [l, a, b] \<and>
           get_l (foldl heap_after h' cs) c = l \<and>
           get_a (foldl heap_after h' cs) c = a \<and>
           get_b (foldl heap_after h' cs) c = b)"
proof -
  have "length h < length (h @ [[l, a, b]])" by simp
  from foldl_heap_after_old [OF this]
  have "\<And>cs. foldl heap_after (h @ [[l, a, b]]) cs ! length h = [l, a, b]"
    by simp
  then show ?thesis
    by (simp add: new_LABColor_def alloc_def get_l_def get_a_def get_b_def)
qed

section \<open>Distance to gray\<close>

text \<open>
  C6: \<^verbatim>\<open>distanceToGray()\<close> is the square root of \<open>a * a + b * b\<close> in binary64
  arithmetic. It is the same for any two colours with the same \<open>a\<close> and \<open>b\<close>,
  whatever their lightness. It is \<open>0\<close> when \<open>a\<close> and \<open>b\<close> are zero, and \<open>1\<close> when
  \<open>a\<close> is \<open>1\<close> and \<open>b\<close> is zero.
\<close>

theorem distanceToGray_chroma:
  assumes "holds h c l a b"
  shows "distanceToGray h c = fsqrt (fadd (fmul a a) (fmul b b)) \<and>
    (\<forall>h' c' l'. holds h' c' l' a b \<longrightarrow> distanceToGray h' c' = distanceToGray h c) \<and>
    (is_zero a \<and> is_zero b \<longrightarrow> distanceToGray h c = Fin 0) \<and>
    (a = Fin 1 \<and> is_zero b \<longrightarrow> distanceToGray h c = Fin 1)"
proof -
  have g: "\<And>h' c' l'. holds h' c' l' a b \<Longrightarrow>
      distanceToGray h' c' = fsqrt (fadd (fmul a a) (fmul b b))"
    using holds_get by (simp add: distanceToGray_def)
  have z: "fmul v v = Fin 0" if "is_zero v" for v
    using that by (cases v) (simp_all add: fmul_def signed_zero_def)
  have o: "fmul (Fin 1) (Fin 1) = Fin 1"
    by (simp add: fmul_def fl_one)
  have s0: "fsqrt (fadd (fmul a a) (fmul b b)) = Fin 0" if "is_zero a" and "is_zero b"
    unfolding z [OF that(1)] z [OF that(2)] by (simp add: fadd_def fl_zero)
  have s1: "fsqrt (fadd (fmul a a) (fmul b b)) = Fin 1" if "a = Fin 1" and "is_zero b"
    unfolding that(1) o z [OF that(2)] by (simp add: fadd_def fl_one)
  from g [OF assms] g s0 s1 show ?thesis by simp
qed

theorem distanceToGray_chroma_witness:
  "holds [[Fin 7, Fin 1, Fin 0]] \<lparr>values_ref = 0\<rparr> (Fin 7) (Fin 1) (Fin 0) \<and>
   distanceToGray [[Fin 7, Fin 1, Fin 0]] \<lparr>values_ref = 0\<rparr> = Fin 1 \<and>
   holds [[Fin 3, Fin 1, Fin 0]] \<lparr>values_ref = 0\<rparr> (Fin 3) (Fin 1) (Fin 0) \<and>
   distanceToGray [[Fin 3, Fin 1, Fin 0]] \<lparr>values_ref = 0\<rparr> = Fin 1"
proof -
  have x: "holds [[Fin 7, Fin 1, Fin 0]] \<lparr>values_ref = 0\<rparr> (Fin 7) (Fin 1) (Fin 0)"
    and y: "holds [[Fin 3, Fin 1, Fin 0]] \<lparr>values_ref = 0\<rparr> (Fin 3) (Fin 1) (Fin 0)"
    by (simp_all add: holds_def)
  have z: "is_zero (Fin 0)" by simp
  note t = distanceToGray_chroma [OF x]
  from t z have g: "distanceToGray [[Fin 7, Fin 1, Fin 0]] \<lparr>values_ref = 0\<rparr> = Fin 1"
    by blast
  from t y have "distanceToGray [[Fin 3, Fin 1, Fin 0]] \<lparr>values_ref = 0\<rparr> =
      distanceToGray [[Fin 7, Fin 1, Fin 0]] \<lparr>values_ref = 0\<rparr>"
    by blast
  with g x y show ?thesis by simp
qed

section \<open>The CIE94 difference\<close>

text \<open>
  C1: for any two colours, \<^verbatim>\<open>distanceTo\<close> computes the CIE94 difference of the
  specification, in binary64 arithmetic: the lightness difference, the two chromas and
  their difference, the hue term clamped to zero when negative before its square root,
  the scale factors from the chroma of the first colour, and the square root of the
  clamped sum.
\<close>

theorem distanceTo_is_cie94:
  assumes "holds h this l1 a1 b1" and "holds h color l2 a2 b2"
  shows "distanceTo h this color = spec_cie94 l1 a1 b1 l2 a2 b2"
  using assms by (rule dist_spec)

theorem distanceTo_is_cie94_witness:
  "holds [[Fin 0, Fin 1, Fin 0], [Fin 0, Fin 0, Fin 0]] \<lparr>values_ref = 0\<rparr> (Fin 0) (Fin 1) (Fin 0) \<and>
   holds [[Fin 0, Fin 1, Fin 0], [Fin 0, Fin 0, Fin 0]] \<lparr>values_ref = 1\<rparr> (Fin 0) (Fin 0) (Fin 0) \<and>
   distanceTo [[Fin 0, Fin 1, Fin 0], [Fin 0, Fin 0, Fin 0]] \<lparr>values_ref = 0\<rparr> \<lparr>values_ref = 1\<rparr> =
     spec_cie94 (Fin 0) (Fin 1) (Fin 0) (Fin 0) (Fin 0) (Fin 0)"
proof -
  have x: "holds [[Fin 0, Fin 1, Fin 0], [Fin 0, Fin 0, Fin 0]] \<lparr>values_ref = 0\<rparr> (Fin 0) (Fin 1) (Fin 0)"
    and y: "holds [[Fin 0, Fin 1, Fin 0], [Fin 0, Fin 0, Fin 0]] \<lparr>values_ref = 1\<rparr> (Fin 0) (Fin 0) (Fin 0)"
    by (simp_all add: holds_def)
  from distanceTo_is_cie94 [OF x y] x y show ?thesis by simp
qed

section \<open>Conversion to XYZ\<close>

text \<open>
  C2: for any colour, \<^verbatim>\<open>toXYZ()\<close> computes \<open>fy = (l * 100 + 16) / 116\<close>,
  \<open>fx = a / 5 + fy\<close> and \<open>fz = fy - b / 2\<close>, takes for each the cube when the cube
  is greater than \<open>0.008856451\<close> and \<open>(f - 16 / 116) / 7.787037\<close> otherwise, and
  multiplies the three ratios by the matching components of the white point.
\<close>

theorem toXYZ_is_spec:
  assumes "holds h this l a b"
  shows "toXYZ D65 h this = spec_toXYZ D65 l a b"
  using holds_get [OF assms]
  by (simp add: toXYZ_def spec_toXYZ_def xyz_ratio_def spec_ratio_def new_XYZColor_def Let_def)

theorem toXYZ_is_spec_witness:
  "holds [[Fin 1, Fin 0, Fin 0]] \<lparr>values_ref = 0\<rparr> (Fin 1) (Fin 0) (Fin 0) \<and>
   toXYZ \<lparr>xyz_x = Fin 1, xyz_y = Fin 1, xyz_z = Fin 1\<rparr> [[Fin 1, Fin 0, Fin 0]] \<lparr>values_ref = 0\<rparr> =
     spec_toXYZ \<lparr>xyz_x = Fin 1, xyz_y = Fin 1, xyz_z = Fin 1\<rparr> (Fin 1) (Fin 0) (Fin 0)"
proof -
  have x: "holds [[Fin 1, Fin 0, Fin 0]] \<lparr>values_ref = 0\<rparr> (Fin 1) (Fin 0) (Fin 0)"
    by (simp add: holds_def)
  from toXYZ_is_spec [OF x] x show ?thesis by simp
qed

section \<open>Evaluating the distance\<close>

lemma distanceTo_eval:
  assumes "h ! values_ref this = [l1, a1, b1]" and "h ! values_ref color = [l2, a2, b2]"
    and "fsub l1 l2 = deltaL" and "fsub a1 a2 = deltaA" and "fsub b1 b2 = deltaB"
    and "fsqrt (fadd (fmul a1 a1) (fmul b1 b1)) = c1"
    and "fsqrt (fadd (fmul a2 a2) (fmul b2 b2)) = c2"
    and "fsub c1 c2 = deltaC"
    and "fsub (fadd (fmul deltaA deltaA) (fmul deltaB deltaB)) (fmul deltaC deltaC) = rad"
    and "(if flt rad (Fin 0) then Fin 0 else fsqrt rad) = deltaH"
    and "fadd (Fin 1) (fmul (lit 0.045) c1) = sc"
    and "fadd (Fin 1) (fmul (lit 0.015) c1) = sh"
    and "fdiv deltaL (Fin 1) = dl" and "fdiv deltaC sc = dc" and "fdiv deltaH sh = dh"
    and "fadd (fadd (fmul dl dl) (fmul dc dc)) (fmul dh dh) = i"
  shows "distanceTo h this color = (if flt i (Fin 0) then Fin 0 else fsqrt i)"
  unfolding distanceTo_def Let_def assms(1,2)
  using assms(3-) by (simp add: lit_one lit_zero split del: if_split cong: if_cong)

lemmas arith_defs = fadd_def fsub_def fmul_def fdiv_def signed_zero_def signed_inf_def
lemmas fl_small = fl_zero fl_one fl_minus_one

lemma dist_YX:
  assumes X: "h ! values_ref X = [Fin 0, Fin 1, Fin 0]"
    and Y: "h ! values_ref Y = [Fin 0, Fin 0, Fin 0]"
  shows "distanceTo h Y X = Fin 1"
proof -
  obtain k where k: "lit 0.045 = Fin k" "0 < k" using lit_045 by force
  obtain k' where k': "lit 0.015 = Fin k'" "0 < k'" using lit_015 by force
  have "distanceTo h Y X = (if flt (Fin 1) (Fin 0) then Fin 0 else fsqrt (Fin 1))"
  proof (rule distanceTo_eval [OF Y X])
    show "fsub (Fin 0) (Fin 0) = Fin 0" by (simp add: arith_defs fl_small)
    show "fsub (Fin 0) (Fin 1) = Fin (- 1)" by (simp add: arith_defs fl_small)
    show "fsub (Fin 0) (Fin 0) = Fin 0" by (simp add: arith_defs fl_small)
    show "fsqrt (fadd (fmul (Fin 0) (Fin 0)) (fmul (Fin 0) (Fin 0))) = Fin 0"
      by (simp add: arith_defs fl_small)
    show "fsqrt (fadd (fmul (Fin 1) (Fin 1)) (fmul (Fin 0) (Fin 0))) = Fin 1"
      by (simp add: arith_defs fl_small)
    show "fsub (Fin 0) (Fin 1) = Fin (- 1)" by (simp add: arith_defs fl_small)
    show "fsub (fadd (fmul (Fin (- 1)) (Fin (- 1))) (fmul (Fin 0) (Fin 0)))
        (fmul (Fin (- 1)) (Fin (- 1))) = Fin 0"
      by (simp add: arith_defs fl_small)
    show "(if flt (Fin 0) (Fin 0) then Fin 0 else fsqrt (Fin 0)) = Fin 0"
      by (simp add: fl_small)
    show "fadd (Fin 1) (fmul (lit 0.045) (Fin 0)) = Fin 1"
      using k by (simp add: arith_defs fl_small)
    show "fadd (Fin 1) (fmul (lit 0.015) (Fin 0)) = Fin 1"
      using k' by (simp add: arith_defs fl_small)
    show "fdiv (Fin 0) (Fin 1) = Fin 0" by (simp add: arith_defs fl_small)
    show "fdiv (Fin (- 1)) (Fin 1) = Fin (- 1)" by (simp add: arith_defs fl_small)
    show "fdiv (Fin 0) (Fin 1) = Fin 0" by (simp add: arith_defs fl_small)
    show "fadd (fadd (fmul (Fin 0) (Fin 0)) (fmul (Fin (- 1)) (Fin (- 1))))
        (fmul (Fin 0) (Fin 0)) = Fin 1"
      by (simp add: arith_defs fl_small)
  qed
  then show ?thesis by (simp add: fl_small)
qed

lemma dist_XY:
  assumes X: "h ! values_ref X = [Fin 0, Fin 1, Fin 0]"
    and Y: "h ! values_ref Y = [Fin 0, Fin 0, Fin 0]"
  shows "\<exists>r. distanceTo h X Y = Fin r \<and> r \<le> 255 / 256"
proof -
  have r33: "rnd (33 / 32) = 33 / 32" by (rule rnd_dyadic [of "- 5" 33]) simp_all
  have r63: "rnd (63 / 64) = 63 / 64" by (rule rnd_dyadic [of "- 6" 63]) simp_all
  have r255: "rnd (255 / 256) = 255 / 256" by (rule rnd_dyadic [of "- 8" 255]) simp_all
  have r2: "rnd (1 / 2) = 1 / 2" by (rule rnd_dyadic [of "- 1" 1]) simp_all
  have r4: "rnd (1 / 4) = 1 / 4" by (rule rnd_dyadic [of "- 2" 1]) simp_all
  obtain k where k: "lit 0.045 = Fin k" "1 / 32 \<le> k" "k \<le> 1" using lit_045 by force
  obtain k' where k': "lit 0.015 = Fin k'" "1 / 128 \<le> k'" "k' \<le> 1" using lit_015 by force
  have kk: "fl k = Fin k" using k(1) unfolding lit_def by (rule fl_idem)
  have kk': "fl k' = Fin k'" using k'(1) unfolding lit_def by (rule fl_idem)
  obtain s where s: "fl (1 + k) = Fin s" "33 / 32 \<le> s" "s \<le> 2"
    using fl_between [of "33 / 32" "1 + k" 2] k r33 rnd_two by force
  obtain s' where s': "fl (1 + k') = Fin s'" "1 \<le> s'" "s' \<le> 2"
    using fl_between [of 1 "1 + k'" 2] k' rnd_one rnd_two by force
  have "1 / 2 \<le> 1 / s" and "1 / s \<le> 63 / 64" using s(2,3) by (simp_all add: field_simps)
  then obtain d where d: "fl (1 / s) = Fin d" "1 / 2 \<le> d" "d \<le> 63 / 64"
    using fl_between [of "1 / 2" "1 / s" "63 / 64"] r2 r63 by force
  have "1 / 4 \<le> d * d"
    using mult_mono [of "1 / 2" d "1 / 2" d] d(2) by simp
  moreover have "d * d \<le> 63 / 64"
    using mult_mono [of d "63 / 64" d 1] d(2,3) by simp
  ultimately obtain dd where dd: "fl (d * d) = Fin dd" "1 / 4 \<le> dd" "dd \<le> 63 / 64"
    using fl_between [of "1 / 4" "d * d" "63 / 64"] r4 r63 by force
  have idd: "fl dd = Fin dd" using dd(1) by (rule fl_idem)
  have "sqrt dd \<le> sqrt ((255 / 256)\<^sup>2)"
    using dd(3) by (intro real_sqrt_le_mono) (simp add: power2_eq_square)
  then have "sqrt dd \<le> 255 / 256" by simp
  moreover have "0 \<le> sqrt dd" using dd(2) by simp
  ultimately obtain r where r: "fl (sqrt dd) = Fin r" "0 \<le> r" "r \<le> 255 / 256"
    using fl_between [of 0 "sqrt dd" "255 / 256"] r255 rnd_zero by force
  have "distanceTo h X Y = (if flt (Fin dd) (Fin 0) then Fin 0 else fsqrt (Fin dd))"
  proof (rule distanceTo_eval [OF X Y])
    show "fsub (Fin 0) (Fin 0) = Fin 0" by (simp add: arith_defs fl_small)
    show "fsub (Fin 1) (Fin 0) = Fin 1" by (simp add: arith_defs fl_small)
    show "fsub (Fin 0) (Fin 0) = Fin 0" by (simp add: arith_defs fl_small)
    show "fsqrt (fadd (fmul (Fin 1) (Fin 1)) (fmul (Fin 0) (Fin 0))) = Fin 1"
      by (simp add: arith_defs fl_small)
    show "fsqrt (fadd (fmul (Fin 0) (Fin 0)) (fmul (Fin 0) (Fin 0))) = Fin 0"
      by (simp add: arith_defs fl_small)
    show "fsub (Fin 1) (Fin 0) = Fin 1" by (simp add: arith_defs fl_small)
    show "fsub (fadd (fmul (Fin 1) (Fin 1)) (fmul (Fin 0) (Fin 0)))
        (fmul (Fin 1) (Fin 1)) = Fin 0"
      by (simp add: arith_defs fl_small)
    show "(if flt (Fin 0) (Fin 0) then Fin 0 else fsqrt (Fin 0)) = Fin 0"
      by (simp add: fl_small)
    show "fadd (Fin 1) (fmul (lit 0.045) (Fin 1)) = Fin s"
      using k s by (simp add: arith_defs kk)
    show "fadd (Fin 1) (fmul (lit 0.015) (Fin 1)) = Fin s'"
      using k' s' by (simp add: arith_defs kk')
    show "fdiv (Fin 0) (Fin 1) = Fin 0" by (simp add: arith_defs fl_small)
    show "fdiv (Fin 1) (Fin s) = Fin d" using s d by (simp add: arith_defs)
    show "fdiv (Fin 0) (Fin s') = Fin 0" using s' by (simp add: arith_defs)
    show "fadd (fadd (fmul (Fin 0) (Fin 0)) (fmul (Fin d) (Fin d)))
        (fmul (Fin 0) (Fin 0)) = Fin dd"
      using d dd by (simp add: arith_defs idd)
  qed
  with dd r show ?thesis by simp
qed

lemma dist_underflow:
  assumes u: "0 < u" "fl u = Fin u" "u * u < 2 powi - 1075"
    and X: "h ! values_ref X = [Fin u, a, b]" and Y: "h ! values_ref Y = [Fin 0, a, b]"
    and a: "a = Fin 0" and b: "b = Fin 0"
  shows "distanceTo h X Y = Fin 0"
proof -
  obtain k where k: "lit 0.045 = Fin k" "0 < k" using lit_045 by force
  obtain k' where k': "lit 0.015 = Fin k'" "0 < k'" using lit_015 by force
  have uu: "fl (u * u) = Fin 0" using u by (intro fl_underflow) simp_all
  have "distanceTo h X Y = (if flt (Fin 0) (Fin 0) then Fin 0 else fsqrt (Fin 0))"
  proof (rule distanceTo_eval [OF X Y])
    show "fsub (Fin u) (Fin 0) = Fin u" using u by (simp add: arith_defs)
    show "fsub a a = Fin 0" by (simp add: a arith_defs fl_small)
    show "fsub b b = Fin 0" by (simp add: b arith_defs fl_small)
    show "fsqrt (fadd (fmul a a) (fmul b b)) = Fin 0" by (simp add: a b arith_defs fl_small)
    then show "fsqrt (fadd (fmul a a) (fmul b b)) = Fin 0" .
    show "fsub (Fin 0) (Fin 0) = Fin 0" by (simp add: arith_defs fl_small)
    show "fsub (fadd (fmul (Fin 0) (Fin 0)) (fmul (Fin 0) (Fin 0))) (fmul (Fin 0) (Fin 0)) = Fin 0"
      by (simp add: arith_defs fl_small)
    show "(if flt (Fin 0) (Fin 0) then Fin 0 else fsqrt (Fin 0)) = Fin 0"
      by (simp add: fl_small)
    show "fadd (Fin 1) (fmul (lit 0.045) (Fin 0)) = Fin 1"
      using k by (simp add: arith_defs fl_small)
    show "fadd (Fin 1) (fmul (lit 0.015) (Fin 0)) = Fin 1"
      using k' by (simp add: arith_defs fl_small)
    show "fdiv (Fin u) (Fin 1) = Fin u" using u by (simp add: arith_defs)
    show "fdiv (Fin 0) (Fin 1) = Fin 0" by (simp add: arith_defs fl_small)
    then show "fdiv (Fin 0) (Fin 1) = Fin 0" .
    show "fadd (fadd (fmul (Fin u) (Fin u)) (fmul (Fin 0) (Fin 0)))
        (fmul (Fin 0) (Fin 0)) = Fin 0"
      using u by (simp add: arith_defs uu fl_small)
  qed
  then show ?thesis by (simp add: fl_small)
qed

lemma dist_overflow_self:
  assumes v: "0 < v" "2 powi 1024 \<le> v * v"
    and X: "h ! values_ref X = [Fin 0, Fin v, Fin 0]"
  shows "distanceTo h X X = NaN"
proof -
  have vv: "fl (v * v) = PosInf" using v by (intro fl_overflow)
  have "distanceTo h X X = (if flt NaN (Fin 0) then Fin 0 else fsqrt NaN)"
  proof (rule distanceTo_eval [OF X X])
    show "fsub (Fin 0) (Fin 0) = Fin 0" by (simp add: arith_defs fl_small)
    show "fsub (Fin v) (Fin v) = Fin 0" using v by (simp add: arith_defs fl_small)
    show "fsub (Fin 0) (Fin 0) = Fin 0" by (simp add: arith_defs fl_small)
    show "fsqrt (fadd (fmul (Fin v) (Fin v)) (fmul (Fin 0) (Fin 0))) = PosInf"
      using v by (simp add: arith_defs vv)
    then show "fsqrt (fadd (fmul (Fin v) (Fin v)) (fmul (Fin 0) (Fin 0))) = PosInf" .
    show "fsub PosInf PosInf = NaN" by (simp add: arith_defs)
    show "fsub (fadd (fmul (Fin 0) (Fin 0)) (fmul (Fin 0) (Fin 0))) (fmul NaN NaN) = NaN"
      by (simp add: arith_defs)
    show "(if flt NaN (Fin 0) then Fin 0 else fsqrt NaN) = NaN" by simp
    show "fadd (Fin 1) (fmul (lit 0.045) PosInf) = fadd (Fin 1) (fmul (lit 0.045) PosInf)" ..
    show "fadd (Fin 1) (fmul (lit 0.015) PosInf) = fadd (Fin 1) (fmul (lit 0.015) PosInf)" ..
    show "fdiv (Fin 0) (Fin 1) = Fin 0" by (simp add: arith_defs fl_small)
    show "fdiv NaN (fadd (Fin 1) (fmul (lit 0.045) PosInf)) = NaN" by (simp add: arith_defs)
    show "fdiv NaN (fadd (Fin 1) (fmul (lit 0.015) PosInf)) = NaN" by (simp add: arith_defs)
    show "fadd (fadd (fmul (Fin 0) (Fin 0)) (fmul NaN NaN)) (fmul NaN NaN) = NaN"
      by (simp add: arith_defs)
  qed
  then show ?thesis by simp
qed

lemma small_sq: "(2::real) powi - 600 * 2 powi - 600 < 2 powi - 1075"
  unfolding p2_add [symmetric] p2_less_iff by simp

lemma big_sq: "(2::real) powi 1024 \<le> 2 powi 600 * 2 powi 600"
  unfolding p2_add [symmetric] p2_le_iff by simp

lemma dist_same_ab:
  assumes X: "h ! values_ref X = [l1, a1, b1]" and Y: "h ! values_ref Y = [l2, a2, b2]"
    and fin: "finite_number a1" "finite_number b1" "finite_number a2" "finite_number b2"
    and eq: "feq a1 a2" "feq b1 b2"
    and c: "fsqrt (fadd (fmul a1 a1) (fmul b1 b1)) \<noteq> PosInf"
  shows "distanceTo h X Y = fsqrt (fmul (fsub l1 l2) (fsub l1 l2))"
proof -
  define c1 where "c1 = fsqrt (fadd (fmul a1 a1) (fmul b1 b1))"
  define sc where "sc = fadd (Fin 1) (fmul (lit 0.045) c1)"
  define sh where "sh = fadd (Fin 1) (fmul (lit 0.015) c1)"
  define dL where "dL = fsub l1 l2"
  define y where "y = fmul dL dL"
  have nn: "nonneg c1"
    unfolding c1_def using fin(1,2)
    by (intro nonneg_fsqrt nonneg_fadd nonneg_sq finite_not_NaN)
  have c2: "fsqrt (fadd (fmul a2 a2) (fmul b2 b2)) = c1"
    unfolding c1_def using sq_feq [OF fin(1,3) eq(1)] sq_feq [OF fin(2,4) eq(2)] by simp
  have dA: "is_zero (fsub a1 a2)" using fin(1,3) eq(1) by (rule fsub_feq)
  have dB: "is_zero (fsub b1 b2)" using fin(2,4) eq(2) by (rule fsub_feq)
  have dC: "fsub c1 c1 = Fin 0" using nn c by (intro fsub_self) (simp_all add: c1_def)
  have sc: "ge1 sc" unfolding sc_def using nn by (rule ge1_sc)
  have sh: "ge1 sh" unfolding sh_def using nn by (rule ge1_sh)
  have dc: "is_zero (fdiv (Fin 0) sc)" using sc by (intro fdiv_zero_ge1) simp
  have dh: "is_zero (fdiv (Fin 0) sh)" using sh by (intro fdiv_zero_ge1) simp
  have i: "fadd (fadd y (Fin 0)) (Fin 0) = y" and r: "(if flt y (Fin 0) then Fin 0 else fsqrt y) = fsqrt y"
  proof -
    have "fadd (fadd y (Fin 0)) (Fin 0) = y \<and> \<not> flt y (Fin 0)"
    proof (cases "dL = NaN")
      case True
      then show ?thesis by (simp add: y_def fmul_def fadd_def)
    next
      case False
      then have "nonneg y" unfolding y_def by (rule nonneg_sq)
      moreover have "is_number y" unfolding y_def by (rule is_number_fmul)
      ultimately show ?thesis by (simp add: nonneg_fadd_zero nonneg_not_flt)
    qed
    then show "fadd (fadd y (Fin 0)) (Fin 0) = y"
      and "(if flt y (Fin 0) then Fin 0 else fsqrt y) = fsqrt y" by simp_all
  qed
  have "distanceTo h X Y = (if flt y (Fin 0) then Fin 0 else fsqrt y)"
  proof (rule distanceTo_eval [OF X Y])
    show "fsub l1 l2 = dL" by (simp add: dL_def)
    show "fsub a1 a2 = fsub a1 a2" ..
    show "fsub b1 b2 = fsub b1 b2" ..
    show "fsqrt (fadd (fmul a1 a1) (fmul b1 b1)) = c1" by (simp add: c1_def)
    show "fsqrt (fadd (fmul a2 a2) (fmul b2 b2)) = c1" by (rule c2)
    show "fsub c1 c1 = Fin 0" by (rule dC)
    show "fsub (fadd (fmul (fsub a1 a2) (fsub a1 a2)) (fmul (fsub b1 b2) (fsub b1 b2)))
        (fmul (Fin 0) (Fin 0)) = Fin 0"
      unfolding zero_sq [OF dA] zero_sq [OF dB] by (simp add: arith_defs fl_zero)
    show "(if flt (Fin 0) (Fin 0) then Fin 0 else fsqrt (Fin 0)) = Fin 0"
      by (simp add: fl_zero)
    show "fadd (Fin 1) (fmul (lit 0.045) c1) = sc" by (simp add: sc_def)
    show "fadd (Fin 1) (fmul (lit 0.015) c1) = sh" by (simp add: sh_def)
    show "fdiv dL (Fin 1) = dL" unfolding dL_def by (rule fdiv_one) (rule is_number_fsub)
    show "fdiv (Fin 0) sc = fdiv (Fin 0) sc" ..
    show "fdiv (Fin 0) sh = fdiv (Fin 0) sh" ..
    show "fadd (fadd (fmul dL dL) (fmul (fdiv (Fin 0) sc) (fdiv (Fin 0) sc)))
        (fmul (fdiv (Fin 0) sh) (fdiv (Fin 0) sh)) = y"
      unfolding zero_sq [OF dc] zero_sq [OF dh] using i by (simp add: y_def)
  qed
  then show ?thesis unfolding r by (simp add: y_def dL_def)
qed

lemma clamp_sqrt_sign:
  "(if flt i (Fin 0) then Fin 0 else fsqrt i) = NaN \<or>
   fge (if flt i (Fin 0) then Fin 0 else fsqrt i) (Fin 0)"
proof (cases i)
  case (Fin r)
  show ?thesis
  proof (cases "r < 0")
    case True
    then show ?thesis using Fin by (simp add: fge_def feq_def)
  next
    case False
    then have "nonneg (fl (sqrt r))" by (intro nonneg_fl) simp
    then have "fge (fl (sqrt r)) (Fin 0)" by (rule nonneg_fge)
    then show ?thesis using Fin False by simp
  qed
qed (simp_all add: fge_def feq_def)

lemma dist_sign: "distanceTo h X Y = NaN \<or> fge (distanceTo h X Y) (Fin 0)"
  unfolding distanceTo_def Let_def lit_zero by (rule clamp_sqrt_sign)

lemma clamp0_not_negative: "\<not> flt (clamp0 v) (Fin 0)"
  by (cases v) (simp_all add: clamp0_def lit_zero)

lemma dist_bounded:
  assumes X: "h ! values_ref X = [l1, a1, b1]" and Y: "h ! values_ref Y = [l2, a2, b2]"
    and m: "mag 500 l1" "mag 500 a1" "mag 500 b1" "mag 500 l2" "mag 500 a2" "mag 500 b2"
  shows "nonneg (distanceTo h X Y)"
proof -
  define dL where "dL = fsub l1 l2"
  define dA where "dA = fsub a1 a2"
  define dB where "dB = fsub b1 b2"
  define c1 where "c1 = fsqrt (fadd (fmul a1 a1) (fmul b1 b1))"
  define c2 where "c2 = fsqrt (fadd (fmul a2 a2) (fmul b2 b2))"
  define dC where "dC = fsub c1 c2"
  define rad where "rad = fsub (fadd (fmul dA dA) (fmul dB dB)) (fmul dC dC)"
  define dH where "dH = (if flt rad (Fin 0) then Fin 0 else fsqrt rad)"
  define sc where "sc = fadd (Fin 1) (fmul (lit 0.045) c1)"
  define sh where "sh = fadd (Fin 1) (fmul (lit 0.015) c1)"
  define dl where "dl = fdiv dL (Fin 1)"
  define dc where "dc = fdiv dC sc"
  define dh where "dh = fdiv dH sh"
  define i where "i = fadd (fadd (fmul dl dl) (fmul dc dc)) (fmul dh dh)"
  have mdL: "mag 501 dL" unfolding dL_def using mag_fsub [OF m(1,4)] by simp
  have mdA: "mag 501 dA" unfolding dA_def using mag_fsub [OF m(2,5)] by simp
  have mdB: "mag 501 dB" unfolding dB_def using mag_fsub [OF m(3,6)] by simp
  have chroma: "nonneg (fsqrt (fadd (fmul a a) (fmul b b))) \<and>
      mag 501 (fsqrt (fadd (fmul a a) (fmul b b)))" if "mag 500 a" and "mag 500 b" for a b
  proof -
    have na: "a \<noteq> NaN" and nb: "b \<noteq> NaN" using that mag_not_special by blast+
    have s: "nonneg (fadd (fmul a a) (fmul b b))"
      using na nb by (intro nonneg_fadd nonneg_sq)
    have "mag 1000 (fmul a a)" and "mag 1000 (fmul b b)"
      using mag_fmul [OF that(1) that(1)] mag_fmul [OF that(2) that(2)] by simp_all
    then have "mag 1001 (fadd (fmul a a) (fmul b b))" using mag_fadd [of 1000] by simp
    then have "mag (2 * 501) (fadd (fmul a a) (fmul b b))" by (rule mag_mono) simp
    then have "mag 501 (fsqrt (fadd (fmul a a) (fmul b b)))" using s by (rule mag_fsqrt) simp_all
    with s show ?thesis by (simp add: nonneg_fsqrt)
  qed
  have c1: "nonneg c1" "mag 501 c1" unfolding c1_def using chroma [OF m(2,3)] by simp_all
  have c2: "mag 501 c2" unfolding c2_def using chroma [OF m(5,6)] by simp
  have mdC: "mag 502 dC" unfolding dC_def using mag_fsub [OF c1(2) c2] by simp
  have "mag 1002 (fmul dA dA)" and "mag 1002 (fmul dB dB)"
    using mag_fmul [OF mdA mdA] mag_fmul [OF mdB mdB] by simp_all
  then have "mag 1003 (fadd (fmul dA dA) (fmul dB dB))" using mag_fadd [of 1002] by simp
  then have "mag 1004 (fadd (fmul dA dA) (fmul dB dB))" by (rule mag_mono) simp
  moreover have "mag 1004 (fmul dC dC)" using mag_fmul [OF mdC mdC] by simp
  ultimately have "mag 1005 rad" unfolding rad_def using mag_fsub [of 1004] by simp
  then have "mag (2 * 503) rad" by (rule mag_mono) simp
  then have mdH: "mag 503 dH" unfolding dH_def by (rule mag_clamp_sqrt) simp_all
  have sc: "ge1 sc" unfolding sc_def using c1(1) by (rule ge1_sc)
  have sh: "ge1 sh" unfolding sh_def using c1(1) by (rule ge1_sh)
  have "mag 501 dl" unfolding dl_def using mdL by (rule mag_fdiv_ge1) simp_all
  then have ndl: "dl \<noteq> NaN" using mag_not_special by blast
  have "mag 502 dc" unfolding dc_def using mdC sc by (rule mag_fdiv_ge1) simp_all
  then have ndc: "dc \<noteq> NaN" using mag_not_special by blast
  have "mag 503 dh" unfolding dh_def using mdH sh by (rule mag_fdiv_ge1) simp_all
  then have ndh: "dh \<noteq> NaN" using mag_not_special by blast
  have ni: "nonneg i"
    unfolding i_def using ndl ndc ndh by (intro nonneg_fadd nonneg_sq)
  have "distanceTo h X Y = (if flt i (Fin 0) then Fin 0 else fsqrt i)"
    by (rule distanceTo_eval [OF X Y])
      (simp_all only: dL_def dA_def dB_def c1_def c2_def dC_def rad_def dH_def sc_def sh_def
        dl_def dc_def dh_def i_def)
  also have "\<dots> = fsqrt i" using nonneg_not_flt [OF ni] by simp
  finally show ?thesis using ni by (simp add: nonneg_fsqrt)
qed

lemma dist_overflow:
  assumes v: "0 < v" "fl v = Fin v" "2 powi 1024 \<le> v * v"
    and X: "h ! values_ref X = [Fin 0, Fin v, Fin 0]"
    and Y: "h ! values_ref Y = [Fin 0, Fin 0, Fin 0]"
  shows "distanceTo h X Y = NaN"
proof -
  have vv: "fl (v * v) = PosInf" using v(3) by (rule fl_overflow)
  have "distanceTo h X Y = (if flt NaN (Fin 0) then Fin 0 else fsqrt NaN)"
  proof (rule distanceTo_eval [OF X Y])
    show "fsub (Fin 0) (Fin 0) = Fin 0" by (simp add: arith_defs fl_small)
    then show "fsub (Fin 0) (Fin 0) = Fin 0" .
    show "fsub (Fin v) (Fin 0) = Fin v" using v by (simp add: arith_defs)
    show "fsqrt (fadd (fmul (Fin v) (Fin v)) (fmul (Fin 0) (Fin 0))) = PosInf"
      using v by (simp add: arith_defs vv)
    show "fsqrt (fadd (fmul (Fin 0) (Fin 0)) (fmul (Fin 0) (Fin 0))) = Fin 0"
      by (simp add: arith_defs fl_small)
    show "fsub PosInf (Fin 0) = PosInf" by (simp add: arith_defs)
    show "fsub (fadd (fmul (Fin v) (Fin v)) (fmul (Fin 0) (Fin 0))) (fmul PosInf PosInf) = NaN"
      using v by (simp add: arith_defs vv)
    show "(if flt NaN (Fin 0) then Fin 0 else fsqrt NaN) = NaN" by simp
    show "fadd (Fin 1) (fmul (lit 0.045) PosInf) = fadd (Fin 1) (fmul (lit 0.045) PosInf)" ..
    show "fadd (Fin 1) (fmul (lit 0.015) PosInf) = fadd (Fin 1) (fmul (lit 0.015) PosInf)" ..
    show "fdiv (Fin 0) (Fin 1) = Fin 0" by (simp add: arith_defs fl_small)
    show "fdiv PosInf (fadd (Fin 1) (fmul (lit 0.045) PosInf)) =
        fdiv PosInf (fadd (Fin 1) (fmul (lit 0.045) PosInf))" ..
    show "fdiv NaN (fadd (Fin 1) (fmul (lit 0.015) PosInf)) = NaN" by (simp add: arith_defs)
    show "fadd (fadd (fmul (Fin 0) (Fin 0))
          (fmul (fdiv PosInf (fadd (Fin 1) (fmul (lit 0.045) PosInf)))
            (fdiv PosInf (fadd (Fin 1) (fmul (lit 0.045) PosInf)))))
        (fmul NaN NaN) = NaN"
      by (simp add: arith_defs)
  qed
  then show ?thesis by simp
qed

lemma big_sq': "(2::real) powi 1024 \<le> 2 powi 700 * 2 powi 700"
  unfolding p2_add [symmetric] p2_le_iff by simp

lemma small_sq': "(2::real) powi - 700 * 2 powi - 700 < 2 powi - 1075"
  unfolding p2_add [symmetric] p2_less_iff by simp

lemma gray_unit:
  assumes "h ! values_ref X = [l, Fin 1, Fin 0]"
  shows "distanceToGray h X = Fin 1"
  using assms by (simp add: distanceToGray_def get_a_def get_b_def arith_defs fl_small)

lemma gray_zero:
  assumes "h ! values_ref X = [l, Fin 0, Fin 0]"
  shows "distanceToGray h X = Fin 0"
  using assms by (simp add: distanceToGray_def get_a_def get_b_def arith_defs fl_small)

lemma feq_refl: "finite_number x \<Longrightarrow> feq x x"
  by (cases x) (simp_all add: feq_def)

lemma fl_neg:
  assumes "fl v = Fin v"
  shows "fl (- v) = Fin (- v)"
proof (rule fl_exact)
  from assms have "rnd v = v" and "\<bar>v\<bar> < 2 ^ 1024"
    by (auto simp: fl_def Let_def split: if_splits)
  then show "rnd (- v) = - v" and "\<bar>- v\<bar> < 2 ^ 1024" by (simp_all add: rnd_minus)
qed

lemma fl_abs: "fl v = Fin v \<Longrightarrow> fl \<bar>v\<bar> = Fin \<bar>v\<bar>"
  by (simp add: abs_if fl_neg)

lemma holds_nth: "holds h c l a b \<Longrightarrow> h ! values_ref c = [l, a, b]"
  by (simp add: holds_def)

lemma gray_formula:
  "holds h c l a b \<Longrightarrow> distanceToGray h c = fsqrt (fadd (fmul a a) (fmul b b))"
  using holds_get [of h c l a b] by (simp add: distanceToGray_def)

lemma radicand_negative:
  "spec_radicand (Fin 0) (Fin 0) (Fin (1 / 2)) (Fin (1 / 2)) = Fin (- (1 / 2 ^ 53))"
proof -
  define s :: real where "s = 6369051672525773 / 2 ^ 53"
  define p :: real where "p = 4503599627370497 / 2 ^ 53"
  have fs: "fl (sqrt (1 / 2)) = Fin s" unfolding s_def by (rule sqrt_half)
  have fp: "fl (s * s) = Fin p" unfolding s_def p_def by (rule sq_sqrt_half)
  have s0: "s \<noteq> 0" by (simp add: s_def)
  have fu: "fl (1 / 2 - p) = Fin (- (1 / 2 ^ 53))"
    using fl_ulp by (simp add: p_def)
  have c1: "spec_chroma (Fin 0) (Fin 0) = Fin 0"
    by (simp add: spec_chroma_def fsq_def arith_defs fl_small)
  have "fadd (fsq (Fin (1 / 2))) (fsq (Fin (1 / 2))) = Fin (1 / 2)"
    by (simp add: fsq_def arith_defs fl_quarter fl_half)
  then have c2: "spec_chroma (Fin (1 / 2)) (Fin (1 / 2)) = Fin s"
    unfolding spec_chroma_def using fs by simp
  have m: "fl (- s) = Fin (- s)"
    by (rule fl_neg) (rule fl_idem [OF fs])
  have dC: "fsub (Fin 0) (Fin s) = Fin (- s)"
    using m s0 by (simp add: arith_defs)
  have dA: "fsub (Fin 0) (Fin (1 / 2)) = Fin (- (1 / 2))"
    using fl_neg [OF fl_half] by (simp add: arith_defs)
  have sm: "fadd (fsq (Fin (- (1 / 2)))) (fsq (Fin (- (1 / 2)))) = Fin (1 / 2)"
    by (simp add: fsq_def arith_defs fl_quarter fl_half)
  have q: "fsq (Fin (- s)) = Fin p"
    using fp s0 by (simp add: fsq_def arith_defs)
  have "fsub (Fin (1 / 2)) (Fin p) = Fin (- (1 / 2 ^ 53))"
    using fu by (simp add: arith_defs p_def)
  then show ?thesis
    unfolding spec_radicand_def c1 c2 dC dA sm q .
qed

lemma dist_separated:
  assumes X: "h ! values_ref X = [l1, a1, b1]" and Y: "h ! values_ref Y = [l2, a2, b2]"
    and m: "mag 100 l1" "mag 100 a1" "mag 100 b1" "mag 100 l2" "mag 100 a2" "mag 100 b2"
    and sep: "2 powi - 100 \<le> \<bar>val l1 - val l2\<bar> \<or> 2 powi - 100 \<le> \<bar>val a1 - val a2\<bar> \<or>
      2 powi - 100 \<le> \<bar>val b1 - val b2\<bar>"
  shows "\<exists>r. distanceTo h X Y = Fin r \<and> 0 < r"
proof -
  define dL where "dL = fsub l1 l2"
  define dA where "dA = fsub a1 a2"
  define dB where "dB = fsub b1 b2"
  define c1 where "c1 = fsqrt (fadd (fmul a1 a1) (fmul b1 b1))"
  define c2 where "c2 = fsqrt (fadd (fmul a2 a2) (fmul b2 b2))"
  define dC where "dC = fsub c1 c2"
  define S where "S = fadd (fmul dA dA) (fmul dB dB)"
  define D2 where "D2 = fmul dC dC"
  define rad where "rad = fsub S D2"
  define dH where "dH = (if flt rad (Fin 0) then Fin 0 else fsqrt rad)"
  define sc where "sc = fadd (Fin 1) (fmul (lit 0.045) c1)"
  define sh where "sh = fadd (Fin 1) (fmul (lit 0.015) c1)"
  define dl where "dl = fdiv dL (Fin 1)"
  define dc where "dc = fdiv dC sc"
  define dh where "dh = fdiv dH sh"
  define LL where "LL = fmul dl dl"
  define CC where "CC = fmul dc dc"
  define HH where "HH = fmul dh dh"
  define i where "i = fadd (fadd LL CC) HH"
  have mdL: "mag 101 dL" unfolding dL_def using mag_fsub [OF m(1,4)] by simp
  have mdA: "mag 101 dA" unfolding dA_def using mag_fsub [OF m(2,5)] by simp
  have mdB: "mag 101 dB" unfolding dB_def using mag_fsub [OF m(3,6)] by simp
  have chroma: "nonneg (fsqrt (fadd (fmul a a) (fmul b b))) \<and>
      mag 101 (fsqrt (fadd (fmul a a) (fmul b b)))" if "mag 100 a" and "mag 100 b" for a b
  proof -
    have sa: "nonneg (fmul a a) \<and> mag (2 * 100) (fmul a a)" using that(1) by (rule sq_stats) simp_all
    have sb: "nonneg (fmul b b) \<and> mag (2 * 100) (fmul b b)" using that(2) by (rule sq_stats) simp_all
    have s: "nonneg (fadd (fmul a a) (fmul b b))" using sa sb by (simp add: nonneg_fadd)
    have "mag 201 (fadd (fmul a a) (fmul b b))" using sa sb mag_fadd [of 200] by simp
    then have "mag (2 * 101) (fadd (fmul a a) (fmul b b))" by (rule mag_mono) simp
    then have "mag 101 (fsqrt (fadd (fmul a a) (fmul b b)))" using s by (rule mag_fsqrt) simp_all
    with s show ?thesis by (simp add: nonneg_fsqrt)
  qed
  have c1: "nonneg c1" "mag 101 c1" unfolding c1_def using chroma [OF m(2,3)] by simp_all
  have c2: "mag 101 c2" unfolding c2_def using chroma [OF m(5,6)] by simp
  have mdC: "mag 102 dC" unfolding dC_def using mag_fsub [OF c1(2) c2] by simp
  obtain t where t: "lit 0.045 = Fin t" "0 < t" "t \<le> 1" using lit_045 by force
  obtain t' where t': "lit 0.015 = Fin t'" "0 < t'" "t' \<le> 1" using lit_015 by force
  obtain s where s: "sc = Fin s" "1 \<le> s" "s \<le> 2 powi 102"
    unfolding sc_def using scale_bounds [OF t c1, of ] by auto
  obtain s' where s': "sh = Fin s'" "1 \<le> s'" "s' \<le> 2 powi 102"
    unfolding sh_def using scale_bounds [OF t' c1] by auto
  have sA: "nonneg (fmul dA dA)" "mag 202 (fmul dA dA)" using sq_stats [OF mdA] by simp_all
  have sB: "nonneg (fmul dB dB)" "mag 202 (fmul dB dB)" using sq_stats [OF mdB] by simp_all
  have nS: "nonneg S" unfolding S_def using sA(1) sB(1) by (rule nonneg_fadd)
  have "mag 203 S" unfolding S_def using mag_fadd [OF sA(2) sB(2)] by simp
  then have mS: "mag 204 S" by (rule mag_mono) simp
  have D2: "nonneg D2" "mag 204 D2" unfolding D2_def using sq_stats [OF mdC] by simp_all
  have "mag 205 rad" unfolding rad_def using mag_fsub [OF mS D2(2)] by simp
  then have "mag (2 * 103) rad" by (rule mag_mono) simp
  then have mdH: "mag 103 dH" unfolding dH_def by (rule mag_clamp_sqrt) simp_all
  have dl: "dl = dL" unfolding dl_def dL_def by (rule fdiv_one) (rule is_number_fsub)
  have mdc: "mag 102 dc" unfolding dc_def s(1) using mdC by (rule mag_fdiv_ge1) (simp_all add: s)
  have mdh: "mag 103 dh" unfolding dh_def s'(1) using mdH by (rule mag_fdiv_ge1) (simp_all add: s')
  have "nonneg LL \<and> mag (2 * 101) LL" unfolding LL_def dl using mdL by (rule sq_stats) simp_all
  then have LL: "nonneg LL" "mag 206 LL" using mag_mono [of "2 * 101" LL 206] by simp_all
  have "nonneg CC \<and> mag (2 * 102) CC" unfolding CC_def using mdc by (rule sq_stats) simp_all
  then have CC: "nonneg CC" "mag 206 CC" using mag_mono [of "2 * 102" CC 206] by simp_all
  have "nonneg HH \<and> mag (2 * 103) HH" unfolding HH_def using mdh by (rule sq_stats) simp_all
  then have HH: "nonneg HH" "mag 206 HH" by simp_all
  have key: "btw (- 408) 206 LL \<or> btw (- 408) 206 CC \<or> btw (- 408) 206 HH"
  proof (cases "2 powi - 100 \<le> \<bar>val l1 - val l2\<bar>")
    case True
    with m(1,4) have "btw (- 100) (100 + 1) dL" unfolding dL_def by (rule fsub_btw) simp_all
    then have "btw (2 * - 100) (2 * (100 + 1)) LL" unfolding LL_def dl by (rule sq_btw) simp_all
    then have "btw (- 408) 206 LL" by (rule btw_weaken) simp_all
    then show ?thesis by simp
  next
    case False
    with sep have ab: "2 powi - 100 \<le> \<bar>val a1 - val a2\<bar> \<or> 2 powi - 100 \<le> \<bar>val b1 - val b2\<bar>"
      by simp
    have "btw (- 200) 202 (fmul dA dA) \<or> btw (- 200) 202 (fmul dB dB)"
    proof -
      have "btw (2 * - 100) (2 * (100 + 1)) (fmul dA dA)" if "2 powi - 100 \<le> \<bar>val a1 - val a2\<bar>"
        using fsub_btw [OF m(2,5) that] unfolding dA_def by (intro sq_btw) simp_all
      moreover have "btw (2 * - 100) (2 * (100 + 1)) (fmul dB dB)"
        if "2 powi - 100 \<le> \<bar>val b1 - val b2\<bar>"
        using fsub_btw [OF m(3,6) that] unfolding dB_def by (intro sq_btw) simp_all
      ultimately show ?thesis using ab by auto
    qed
    with sA sB have "btw (- 200) (202 + 1) S" unfolding S_def by (intro fadd_lower) simp_all
    then have Sv: "2 powi - 200 \<le> val S" using nS by (cases S) simp_all
    show ?thesis
    proof (cases "2 powi (2 * - 101) \<le> (val dC)\<^sup>2")
      case True
      then have "2 powi - 101 \<le> \<bar>val dC\<bar>" by (rule abs_ge_of_sq)
      with mdC have "btw (- 101) 102 dC" by (rule mag_nonzero_btw)
      then have "btw (- 101 - 102) 102 dc" unfolding dc_def s(1) using s(2,3)
        by (rule btw_fdiv) simp_all
      then have "btw (2 * (- 101 - 102)) (2 * 102) CC" unfolding CC_def by (rule sq_btw) simp_all
      then have "btw (- 408) 206 CC" by (rule btw_weaken) simp_all
      then show ?thesis by simp
    next
      case False
      then have "(val dC)\<^sup>2 \<le> 2 powi - 202" by simp
      with mdC have "\<exists>r. fmul dC dC = Fin r \<and> 0 \<le> r \<and> r \<le> 2 powi - 202"
        by (rule sq_upper) simp_all
      then have "val D2 \<le> 2 powi - 202" unfolding D2_def by auto
      with Sv pow_gap have "2 powi - 201 \<le> val S - val D2" by linarith
      with mS D2(2) have r: "btw (- 201) (204 + 1) rad \<and> nonneg rad"
        unfolding rad_def by (rule fsub_pos) simp_all
      then have "\<not> flt rad (Fin 0)" by (simp add: nonneg_not_flt)
      then have "dH = fsqrt rad" unfolding dH_def by simp
      moreover have "btw (- 201) 205 rad" using r by simp
      then have "btw (2 * - 101) (2 * 103) rad" by (rule btw_weaken) simp_all
      then have "btw (- 101) 103 (fsqrt rad)" using r btw_fsqrt [of "- 101" 103 rad] by simp
      ultimately have "btw (- 101) 103 dH" by simp
      then have "btw (- 101 - 102) 103 dh" unfolding dh_def s'(1) using s'(2,3)
        by (rule btw_fdiv) simp_all
      then have "btw (2 * (- 101 - 102)) (2 * 103) HH" unfolding HH_def by (rule sq_btw) simp_all
      then have "btw (- 408) 206 HH" by (rule btw_weaken) simp_all
      then show ?thesis by simp
    qed
  qed
  have n1: "nonneg (fadd LL CC)" using LL(1) CC(1) by (rule nonneg_fadd)
  have m1: "mag 207 (fadd LL CC)" using mag_fadd [OF LL(2) CC(2)] by simp
  have mH: "mag 207 HH" using HH(2) by (rule mag_mono) simp
  have bi: "btw (- 408) (207 + 1) i"
  proof (cases "btw (- 408) 206 LL \<or> btw (- 408) 206 CC")
    case True
    with LL CC have "btw (- 408) (206 + 1) (fadd LL CC)" by (intro fadd_lower) simp_all
    then show ?thesis unfolding i_def using n1 HH(1) m1 mH by (intro fadd_lower) simp_all
  next
    case False
    with key have "btw (- 408) 206 HH" by simp
    then have "btw (- 408) 207 HH" by (rule btw_weaken) simp_all
    then show ?thesis unfolding i_def using n1 HH(1) m1 mH by (intro fadd_lower) simp_all
  qed
  have ni: "nonneg i" unfolding i_def using n1 HH(1) by (rule nonneg_fadd)
  have "btw (2 * - 204) (2 * 104) i" using bi by simp
  then have "btw (- 204) 104 (fsqrt i)" using ni btw_fsqrt [of "- 204" 104 i] by simp
  moreover have "nonneg (fsqrt i)" using ni by (rule nonneg_fsqrt)
  ultimately obtain r where r: "fsqrt i = Fin r" "2 powi - 204 \<le> \<bar>r\<bar>" "0 \<le> r"
    by (cases "fsqrt i") simp_all
  have "(0::real) < 2 powi - 204" by simp
  with r(2,3) have "0 < r" by linarith
  have "distanceTo h X Y = (if flt i (Fin 0) then Fin 0 else fsqrt i)"
    by (rule distanceTo_eval [OF X Y])
      (simp_all only: dL_def dA_def dB_def c1_def c2_def dC_def S_def D2_def rad_def dH_def
        sc_def sh_def dl_def dc_def dh_def LL_def CC_def HH_def i_def)
  also have "\<dots> = fsqrt i" using nonneg_not_flt [OF ni] by simp
  finally show ?thesis using r(1) \<open>0 < r\<close> by simp
qed

lemma fsqrt_fsq:
  assumes "fl v = Fin v" and "2 powi - 500 \<le> \<bar>v\<bar>" and "\<bar>v\<bar> \<le> 2 powi 500"
  shows "fsqrt (fmul (Fin v) (Fin v)) = Fin \<bar>v\<bar>"
proof -
  define x where "x = \<bar>v\<bar>"
  have "(0::real) < 2 powi - 500" by simp
  with assms(2) have x0: "0 < x" unfolding x_def by linarith
  then have v0: "v \<noteq> 0" by (auto simp: x_def)
  have "fl x = Fin x" unfolding x_def using assms(1) by (rule fl_abs)
  then have rx: "rnd x = x" and fin: "x < 2 ^ 1024" by (auto simp: fl_def Let_def split: if_splits)
  have b: "2 powi bexp x \<le> x" "x < 2 powi (bexp x + 1)" using bexp_bounds [of x] x0 by simp_all
  have "(2::real) powi - 500 < 2 powi (bexp x + 1)" using assms(2) b(2) by (simp add: x_def)
  then have lo: "- 500 \<le> bexp x" by (simp only: p2_less_iff)
  have "(2::real) powi bexp x \<le> 2 powi 500" using assms(3) b(1) by (simp add: x_def)
  then have hi: "bexp x \<le> 500" by (simp only: p2_le_iff)
  have r: "rnd (sqrt (rnd (x * x))) = x" using rx x0 lo hi by (rule rnd_sqrt_sq)
  have xx: "v * v = x * x" by (simp add: x_def)
  have "2 powi - 500 * 2 powi - 500 \<le> x * x" and "x * x \<le> 2 powi 500 * 2 powi 500"
    using assms(2,3) x0 unfolding x_def by (intro mult_mono; simp)+
  then have "2 powi - 1000 \<le> \<bar>x * x\<bar>" and "\<bar>x * x\<bar> \<le> 2 powi 1000"
    by (simp_all add: p2_add [symmetric])
  then have "btw (- 1000) 1000 (fl (x * x))" by (rule btw_fl) simp_all
  moreover have "fl (x * x) = PosInf \<or> fl (x * x) = Fin (rnd (x * x))"
    by (intro fl_nonneg_cases) simp
  ultimately have sq: "fl (x * x) = Fin (rnd (x * x))" by auto
  have y0: "0 \<le> rnd (x * x)" by (intro rnd_nonneg) simp
  have "fl (sqrt (rnd (x * x))) = Fin x"
    using r x0 fin by (simp add: fl_def)
  then show ?thesis
    using v0 y0 by (simp add: fmul_def xx sq x_def [symmetric])
qed

section \<open>Evaluating the conversion to XYZ\<close>

lemma lit_int: "\<bar>n\<bar> \<le> 2 ^ 53 \<Longrightarrow> lit (of_int n) = Fin (of_int n)"
  unfolding lit_def by (rule fl_int)

lemma lit_small: "lit 2 = Fin 2" "lit 5 = Fin 5" "lit 16 = Fin 16" "lit 100 = Fin 100"
  "lit 116 = Fin 116"
  using lit_int [of 2] lit_int [of 5] lit_int [of 16] lit_int [of 100] lit_int [of 116]
  by simp_all

lemma lit_threshold: "\<exists>t. lit 0.008856451 = Fin t \<and> 1 / 128 \<le> t \<and> t \<le> 1 / 64"
  unfolding lit_def
proof (rule fl_between)
  show "rnd (1 / 128) = 1 / 128" by (rule rnd_dyadic [of "- 7" 1]) simp_all
  show "rnd (1 / 64) = 1 / 64" by (rule rnd_dyadic [of "- 6" 1]) simp_all
qed simp_all

lemma offset_16_116: "\<exists>q. fdiv (lit 16) (lit 116) = Fin q \<and> 1 / 8 \<le> q \<and> q \<le> 1 / 4"
proof -
  have "\<exists>q. fl (16 / 116) = Fin q \<and> 1 / 8 \<le> q \<and> q \<le> 1 / 4"
  proof (rule fl_between)
    show "rnd (1 / 8) = 1 / 8" by (rule rnd_dyadic [of "- 3" 1]) simp_all
    show "rnd (1 / 4) = 1 / 4" by (rule rnd_dyadic [of "- 2" 1]) simp_all
  qed simp_all
  then show ?thesis by (simp add: lit_small fdiv_def)
qed

lemma xyz_ratio_zero: "xyz_ratio NegZero = xyz_ratio (Fin 0)"
proof -
  obtain t where t: "lit 0.008856451 = Fin t" "0 < t" using lit_threshold by force
  obtain q where q: "fdiv (lit 16) (lit 116) = Fin q" "0 < q" using offset_16_116 by force
  have "fsub NegZero (Fin q) = fsub (Fin 0) (Fin q)"
    using q(2) by (simp add: fsub_def fadd_def)
  then show ?thesis
    using t q(2) unfolding xyz_ratio_def Let_def q(1)
    by (simp add: fmul_def signed_zero_def fgt_def)
qed

lemma xyz_ratio_cong:
  assumes "u = v \<or> (is_zero u \<and> is_zero v)"
  shows "xyz_ratio u = xyz_ratio v"
proof -
  have "w = Fin 0 \<or> w = NegZero" if "is_zero w" for w using that by (cases w) simp_all
  with assms show ?thesis using xyz_ratio_zero by metis
qed

lemma fadd_zero_left:
  assumes "is_zero z" and "is_number y"
  shows "fadd z y = y \<or> (is_zero (fadd z y) \<and> is_zero y)"
  using assms by (cases z; cases y) (simp_all add: fadd_def fl_zero)

lemma fadd_zero_right:
  assumes "is_zero z" and "is_number y"
  shows "fadd y z = y \<or> (is_zero (fadd y z) \<and> is_zero y)"
  using assms by (cases z; cases y) (simp_all add: fadd_def fl_zero)

lemma fdiv_zero_pos: "is_zero z \<Longrightarrow> 0 < t \<Longrightarrow> is_zero (fdiv z (Fin t))"
  by (cases z) (simp_all add: fdiv_def signed_zero_def)

lemma is_zero_fneg: "is_zero z \<Longrightarrow> is_zero (fneg z)"
  by (cases z) simp_all

lemma toXYZ_neutral_ratio:
  assumes "holds h c l a b" and "is_zero a" and "is_zero b"
  shows "toXYZ D65 h c =
    \<lparr>xyz_x = fmul (xyz_ratio (fdiv (fadd (fmul l (lit 100)) (lit 16)) (lit 116))) (xyz_x D65),
     xyz_y = fmul (xyz_ratio (fdiv (fadd (fmul l (lit 100)) (lit 16)) (lit 116))) (xyz_y D65),
     xyz_z = fmul (xyz_ratio (fdiv (fadd (fmul l (lit 100)) (lit 16)) (lit 116))) (xyz_z D65)\<rparr>"
proof -
  define fy where "fy = fdiv (fadd (fmul l (lit 100)) (lit 16)) (lit 116)"
  have n: "is_number fy" unfolding fy_def by (rule is_number_fdiv)
  have za: "is_zero (fdiv a (lit 5))" unfolding lit_small using assms(2) by (rule fdiv_zero_pos) simp
  have zb: "is_zero (fneg (fdiv b (lit 2)))"
    unfolding lit_small using assms(3) by (intro is_zero_fneg fdiv_zero_pos) simp_all
  have x: "xyz_ratio (fadd (fdiv a (lit 5)) fy) = xyz_ratio fy"
    using fadd_zero_left [OF za n] by (intro xyz_ratio_cong) blast
  have z: "xyz_ratio (fsub fy (fdiv b (lit 2))) = xyz_ratio fy"
    unfolding fsub_def using fadd_zero_right [OF zb n] by (intro xyz_ratio_cong) blast
  show ?thesis
    using holds_get [OF assms(1)] x z
    by (simp add: toXYZ_def Let_def new_XYZColor_def fy_def)
qed

lemma fl_int': "fl 25 = Fin 25" "fl 41 = Fin 41" "fl 75 = Fin 75" "fl 91 = Fin 91"
  using fl_int [of 25] fl_int [of 41] fl_int [of 75] fl_int [of 91] by simp_all

lemma zero_is_zero: "is_zero (Fin 0)"
  by simp

lemma xyz_ratio_cube:
  assumes "0 < l" and "fl (l * 100) = Fin a" and "fl (a + 16) = Fin b"
    and "fl (b / 116) = Fin fy" and "fl (fy * fy) = Fin v2" and "fl (v2 * fy) = Fin v3"
    and "0 < a" and "0 < b" and "0 < fy" and "0 < v2" and "1 / 64 < v3"
  shows "xyz_ratio (fdiv (fadd (fmul (Fin l) (lit 100)) (lit 16)) (lit 116)) = Fin v3"
proof -
  obtain t where t: "lit 0.008856451 = Fin t" "t \<le> 1 / 64" using lit_threshold by force
  have "fdiv (fadd (fmul (Fin l) (lit 100)) (lit 16)) (lit 116) = Fin fy"
    using assms(1-4,7,8) by (simp add: lit_small fmul_def fadd_def fdiv_def)
  moreover have "fmul (fmul (Fin fy) (Fin fy)) (Fin fy) = Fin v3"
    using assms(5,6,9,10) by (simp add: fmul_def)
  ultimately show ?thesis
    using t assms(11) by (simp add: xyz_ratio_def Let_def fgt_def)
qed

section \<open>Quotients by the white point\<close>

text \<open>
  A result in the normal range is within the relative distance \<open>1 / 2 ^ 53\<close> of the
  exact value, so a product divided again by one of its factors is within
  \<open>1 / 2 ^ 51\<close> of the other.
\<close>

lemma fl_Fin_rnd:
  assumes "fl x = Fin r"
  shows "r = rnd x"
proof (cases "2 ^ 1024 \<le> rnd x")
  case True
  then have "fl x = PosInf" unfolding fl_def Let_def by (simp only: if_True)
  with assms show ?thesis by simp
next
  case a: False
  show ?thesis
  proof (cases "rnd x \<le> - (2 ^ 1024)")
    case True
    then have "fl x = NegInf" unfolding fl_def Let_def using a by (simp only: if_True if_False)
    with assms show ?thesis by simp
  next
    case b: False
    show ?thesis
    proof (cases "rnd x = 0 \<and> x < 0")
      case True
      have "fl x = (if rnd x = 0 \<and> x < 0 then NegZero else Fin (rnd x))"
        unfolding fl_def Let_def using a b by (simp only: if_False)
      also have "\<dots> = NegZero" using True by simp
      finally show ?thesis using assms by simp
    next
      case False
      have "fl x = (if rnd x = 0 \<and> x < 0 then NegZero else Fin (rnd x))"
        unfolding fl_def Let_def using a b by (simp only: if_False)
      also have "\<dots> = Fin (rnd x)" using False by (simp only: if_False)
      finally show ?thesis using assms by simp
    qed
  qed
qed

lemma rnd_rel:
  assumes "2 powi k \<le> \<bar>x\<bar>" and "- 1022 \<le> k"
  shows "\<bar>rnd x - x\<bar> \<le> \<bar>x\<bar> / 2 ^ 53"
proof -
  have "(0::real) < 2 powi k" by simp
  with assms have x0: "x \<noteq> 0" by linarith
  note b = bexp_bounds [OF x0]
  from assms b(2) have "(2::real) powi k < 2 powi (bexp x + 1)" by linarith
  then have "k < bexp x + 1" by (simp only: p2_less_iff)
  then have q: "qexp x = bexp x + (- 52)" using assms(2) by (simp add: qexp_def)
  have h: "(2::real) powi (- 52) = 1 / 2 ^ 52" by (simp add: power_int_minus inverse_eq_divide)
  have "(2::real) powi qexp x = 2 powi bexp x * 2 powi (- 52)" unfolding q by (rule p2_add)
  then have "(2::real) powi qexp x / 2 = 2 powi bexp x / 2 ^ 53" unfolding h by simp
  also have "\<dots> \<le> \<bar>x\<bar> / 2 ^ 53" using b(1) by (simp add: divide_right_mono)
  finally show ?thesis using rnd_error [of x] by linarith
qed

lemma fl_rel:
  assumes "2 powi k \<le> \<bar>x\<bar>" and "\<bar>x\<bar> \<le> 2 powi K" and "- 1022 \<le> k" and "K \<le> 1023"
  shows "\<exists>r. fl x = Fin r \<and> \<bar>r - x\<bar> \<le> \<bar>x\<bar> / 2 ^ 53"
proof -
  have "btw k K (fl x)" using assms by (intro btw_fl) simp_all
  then obtain r where r: "fl x = Fin r" by (cases "fl x") simp_all
  then have e: "r = rnd x" by (rule fl_Fin_rnd)
  have "\<bar>rnd x - x\<bar> \<le> \<bar>x\<bar> / 2 ^ 53" using assms(1,3) by (rule rnd_rel)
  with r e show ?thesis by simp
qed

lemma quotient_near:
  assumes "2 powi k \<le> \<bar>v\<bar>" and "\<bar>v\<bar> \<le> 2 powi K"
    and "2 powi j \<le> \<bar>d\<bar>" and "\<bar>d\<bar> \<le> 2 powi J"
    and "- 1021 \<le> k" and "K \<le> 1022" and "- 1022 \<le> k + j" and "K + J \<le> 1023"
  shows "\<exists>q. fdiv (fmul (Fin v) (Fin d)) (Fin d) = Fin q \<and> \<bar>q - v\<bar> \<le> \<bar>v\<bar> / 2 ^ 51"
proof -
  note v = assms(1,2) and d = assms(3,4)
  have pk: "(0::real) < 2 powi k" and pj: "(0::real) < 2 powi j" by simp_all
  from v(1) d(1) pk pj have v0: "0 < \<bar>v\<bar>" and d0: "0 < \<bar>d\<bar>" by linarith+
  then have vn: "v \<noteq> 0" and dn: "d \<noteq> 0" by simp_all
  have m: "fmul (Fin v) (Fin d) = fl (v * d)" using vn dn by (simp add: fmul_def)
  have e: "\<bar>v * d\<bar> = \<bar>v\<bar> * \<bar>d\<bar>" by (rule abs_mult)
  have "2 powi k * 2 powi j \<le> \<bar>v\<bar> * \<bar>d\<bar>"
    using v(1) d(1) by (intro mult_mono) simp_all
  then have lo: "2 powi (k + j) \<le> \<bar>v * d\<bar>" by (simp only: p2_add e)
  have "\<bar>v\<bar> * \<bar>d\<bar> \<le> 2 powi K * 2 powi J"
    using v(2) d(2) by (intro mult_mono) simp_all
  then have hi: "\<bar>v * d\<bar> \<le> 2 powi (K + J)" by (simp only: p2_add e)
  from fl_rel [OF lo hi assms(7,8)] obtain p where p: "fl (v * d) = Fin p"
    and pe: "\<bar>p - v * d\<bar> \<le> \<bar>v * d\<bar> / 2 ^ 53" by auto
  have "p / d - v = (p - v * d) / d" using dn by (simp add: field_simps)
  then have "\<bar>p / d - v\<bar> = \<bar>p - v * d\<bar> / \<bar>d\<bar>" by (simp add: abs_divide)
  also have "\<dots> \<le> (\<bar>v * d\<bar> / 2 ^ 53) / \<bar>d\<bar>" using pe by (intro divide_right_mono) simp_all
  also have "\<dots> = \<bar>v\<bar> / 2 ^ 53" using dn by (simp add: e)
  finally have ye: "\<bar>p / d - v\<bar> \<le> \<bar>v\<bar> / 2 ^ 53" .
  have small: "\<bar>v\<bar> / 2 ^ 53 \<le> \<bar>v\<bar> / 2" using v0 by (simp add: field_simps)
  from ye small have yl: "\<bar>v\<bar> / 2 \<le> \<bar>p / d\<bar>" and yh: "\<bar>p / d\<bar> \<le> 2 * \<bar>v\<bar>" by linarith+
  have "(2::real) powi (k + (- 1)) = 2 powi k * 2 powi (- 1)" by (rule p2_add)
  then have "(2::real) powi (k + (- 1)) = 2 powi k / 2" by simp
  with v(1) yl have ylo: "2 powi (k + (- 1)) \<le> \<bar>p / d\<bar>" by linarith
  have "(2::real) powi (K + 1) = 2 powi K * 2 powi 1" by (rule p2_add)
  then have "(2::real) powi (K + 1) = 2 * 2 powi K" by simp
  with v(2) yh have yhi: "\<bar>p / d\<bar> \<le> 2 powi (K + 1)" by linarith
  from yl v0 have "p / d \<noteq> 0" by auto
  then have pn: "p \<noteq> 0" by auto
  have dv: "fdiv (Fin p) (Fin d) = fl (p / d)" using pn dn by (simp add: fdiv_def)
  have c1: "- 1022 \<le> k + (- 1)" and c2: "K + 1 \<le> 1023" using assms(5,6) by simp_all
  from fl_rel [OF ylo yhi c1 c2] obtain q where q: "fl (p / d) = Fin q"
    and qe: "\<bar>q - p / d\<bar> \<le> \<bar>p / d\<bar> / 2 ^ 53" by auto
  have "\<bar>p / d\<bar> / 2 ^ 53 \<le> 2 * \<bar>v\<bar> / 2 ^ 53" using yh by (simp add: divide_right_mono)
  with qe ye have "\<bar>q - v\<bar> \<le> 2 * \<bar>v\<bar> / 2 ^ 53 + \<bar>v\<bar> / 2 ^ 53" by linarith
  also have "\<dots> \<le> \<bar>v\<bar> / 2 ^ 51" using v0 by (simp add: field_simps)
  finally show ?thesis unfolding m p dv q by simp
qed

lemma quotient_close:
  assumes "btw (- 500) 500 r" and "btw (- 500) 500 d"
  shows "close_to r (fdiv (fmul r d) d)"
proof -
  from assms(1) obtain v where r: "r = Fin v" by (cases r) simp_all
  from assms(2) obtain w where d: "d = Fin w" by (cases d) simp_all
  have "\<exists>q. fdiv (fmul (Fin v) (Fin w)) (Fin w) = Fin q \<and> \<bar>q - v\<bar> \<le> \<bar>v\<bar> / 2 ^ 51"
  proof (rule quotient_near)
    show "2 powi (- 500) \<le> \<bar>v\<bar>" and "\<bar>v\<bar> \<le> 2 powi 500"
      using assms(1) unfolding r btw.simps by blast+
    show "2 powi (- 500) \<le> \<bar>w\<bar>" and "\<bar>w\<bar> \<le> 2 powi 500"
      using assms(2) unfolding d btw.simps by blast+
  qed simp_all
  then show ?thesis unfolding r d by auto
qed

lemma quotient_zero:
  assumes "is_zero r" and "finite_number d" and "\<not> is_zero d"
  shows "is_zero (fdiv (fmul r d) d)"
  using assms by (cases r; cases d) (simp_all add: fmul_def fdiv_def signed_zero_def)

text \<open>The ratio of a neutral colour: of a bright one, and of black.\<close>

lemma fl_range:
  assumes "lo \<le> x" and "x \<le> 2 powi K" and "rnd lo = lo" and "0 < lo"
    and "- 1074 \<le> K" and "K \<le> 1023"
  shows "\<exists>r. fl x = Fin r \<and> lo \<le> r \<and> r \<le> 2 powi K"
proof -
  have "rnd lo \<le> rnd x" and "rnd x \<le> rnd (2 powi K)"
    using assms(1,2) by (simp_all only: rnd_mono)
  then have b: "lo \<le> rnd x" "rnd x \<le> 2 powi K"
    using assms(3) rnd_pow2 [OF assms(5)] by simp_all
  have "(2::real) powi K < 2 powi 1024" unfolding p2_less_iff using assms(6) by simp
  then have "(2::real) powi K < 2 ^ 1024" by simp
  with b assms(4) have "0 < rnd x" and "rnd x < 2 ^ 1024" by linarith+
  then have "fl x = Fin (rnd x)" by (auto simp: fl_def Let_def)
  with b show ?thesis by simp
qed

lemma ratio_range:
  assumes "1 / 4 \<le> v" and "v \<le> 2 powi K" and "0 \<le> K" and "K \<le> 300"
  shows "\<exists>r. xyz_ratio (fdiv (fadd (fmul (Fin v) (lit 100)) (lit 16)) (lit 116)) = Fin r \<and>
    1 / 32 \<le> r \<and> r \<le> 2 powi (3 * K + 6)"
proof -
  have v0: "0 < v" using assms(1) by simp
  have r25: "rnd 25 = 25" using rnd_int [of 25] by simp
  have r41: "rnd 41 = 41" using rnd_int [of 41] by simp
  have r11: "rnd (11 / 32) = 11 / 32" by (rule rnd_dyadic [of "- 5" 11]) simp_all
  have r121: "rnd (121 / 1024) = 121 / 1024" by (rule rnd_dyadic [of "- 10" 121]) simp_all
  have r1331: "rnd (1331 / 32768) = 1331 / 32768"
    by (rule rnd_dyadic [of "- 15" 1331]) simp_all
  have pK: "(0::real) < 2 powi K" by simp
  have "v * 100 \<le> 2 powi K * 2 powi 7" using assms(2) v0 by (intro mult_mono) simp_all
  then have a_hi: "v * 100 \<le> 2 powi (K + 7)" by (simp only: p2_add)
  have a_lo: "25 \<le> v * 100" using assms(1) by simp
  from fl_range [OF a_lo a_hi r25] assms(3,4)
  obtain a where a: "fl (v * 100) = Fin a" "25 \<le> a" "a \<le> 2 powi (K + 7)" by auto
  have "(2::real) powi 4 \<le> 2 powi (K + 7)" unfolding p2_le_iff using assms(3) by simp
  then have "(16::real) \<le> 2 powi (K + 7)" by simp
  with a(3) have "a + 16 \<le> 2 * 2 powi (K + 7)" by linarith
  also have "\<dots> = 2 powi (K + 7 + 1)" by (simp only: p2_add) simp
  finally have b_hi: "a + 16 \<le> 2 powi (K + 8)" by (simp add: add.commute add.left_commute)
  have b_lo: "41 \<le> a + 16" using a(2) by simp
  from fl_range [OF b_lo b_hi r41] assms(3,4)
  obtain b where b: "fl (a + 16) = Fin b" "41 \<le> b" "b \<le> 2 powi (K + 8)" by auto
  have b0: "0 < b" using b(2) by simp
  have "b / 116 \<le> b / 64" using b0 by (simp add: field_simps)
  also have "\<dots> \<le> 2 powi (K + 8) / 64" using b(3) by (simp add: divide_right_mono)
  also have "\<dots> = 2 powi (K + 2 + 6) / 2 powi 6" by (simp add: add.commute add.left_commute)
  also have "\<dots> = 2 powi (K + 2)" by (simp only: p2_add) simp
  finally have f_hi: "b / 116 \<le> 2 powi (K + 2)" .
  have f_lo: "11 / 32 \<le> b / 116" using b(2) by (simp add: field_simps)
  from fl_range [OF f_lo f_hi r11] assms(3,4)
  obtain fy where fy: "fl (b / 116) = Fin fy" "11 / 32 \<le> fy" "fy \<le> 2 powi (K + 2)" by auto
  have fy0: "0 < fy" using fy(2) by simp
  have "fy * fy \<le> 2 powi (K + 2) * 2 powi (K + 2)" using fy(3) fy0 by (intro mult_mono) simp_all
  also have "\<dots> = 2 powi (K + 2 + (K + 2))" by (simp only: p2_add)
  finally have s_hi: "fy * fy \<le> 2 powi (2 * K + 4)" by (simp add: algebra_simps)
  have "(11 / 32) * (11 / 32) \<le> fy * fy" using fy(2) by (intro mult_mono) simp_all
  then have s_lo: "121 / 1024 \<le> fy * fy" by simp
  from fl_range [OF s_lo s_hi r121] assms(3,4)
  obtain v2 where v2: "fl (fy * fy) = Fin v2" "121 / 1024 \<le> v2" "v2 \<le> 2 powi (2 * K + 4)"
    by auto
  have v20: "0 < v2" using v2(2) by simp
  have "v2 * fy \<le> 2 powi (2 * K + 4) * 2 powi (K + 2)"
    using v2(3) fy(3) fy0 v20 by (intro mult_mono) simp_all
  also have "\<dots> = 2 powi (2 * K + 4 + (K + 2))" by (simp only: p2_add)
  finally have c_hi: "v2 * fy \<le> 2 powi (3 * K + 6)" by (simp add: algebra_simps)
  have "(121 / 1024) * (11 / 32) \<le> v2 * fy" using v2(2) fy(2) by (intro mult_mono) simp_all
  then have c_lo: "1331 / 32768 \<le> v2 * fy" by simp
  from fl_range [OF c_lo c_hi r1331] assms(3,4)
  obtain v3 where v3: "fl (v2 * fy) = Fin v3" "1331 / 32768 \<le> v3" "v3 \<le> 2 powi (3 * K + 6)"
    by auto
  have "xyz_ratio (fdiv (fadd (fmul (Fin v) (lit 100)) (lit 16)) (lit 116)) = Fin v3"
    using v0 a(1) b(1) fy(1) v2(1) v3(1)
  proof (rule xyz_ratio_cube)
    show "0 < a" using a(2) by simp
    show "0 < b" by (rule b0)
    show "0 < fy" by (rule fy0)
    show "0 < v2" by (rule v20)
    show "1 / 64 < v3" using v3(2) by simp
  qed
  moreover have "1 / 32 \<le> v3" using v3(2) by simp
  ultimately show ?thesis using v3(3) by blast
qed

lemma ratio_bright:
  assumes "1 / 4 \<le> v" and "v \<le> 2 powi 100"
  shows "btw (- 5) 306 (xyz_ratio (fdiv (fadd (fmul (Fin v) (lit 100)) (lit 16)) (lit 116)))"
proof -
  obtain r where r: "xyz_ratio (fdiv (fadd (fmul (Fin v) (lit 100)) (lit 16)) (lit 116)) = Fin r"
    and lo: "1 / 32 \<le> r" and hi: "r \<le> 2 powi (3 * 100 + 6)"
    using ratio_range [OF assms] by auto
  have "(3::int) * 100 + 6 = 306" by simp
  with hi have hi': "r \<le> 2 powi 306" by simp
  have "(2::real) powi (- 5) = 1 / 32" by (simp add: power_int_minus inverse_eq_divide)
  with lo have lo': "2 powi (- 5) \<le> r" by simp
  have "0 < r" using lo by simp
  then have "\<bar>r\<bar> = r" by simp
  then show ?thesis unfolding r btw.simps using lo' hi' by simp
qed

lemma lit_slope: "\<exists>s. lit 7.787037 = Fin s \<and> 4 \<le> s \<and> s \<le> 8"
  unfolding lit_def
proof (rule fl_between)
  show "rnd 4 = 4" using rnd_int [of 4] by simp
  show "rnd 8 = 8" using rnd_int [of 8] by simp
qed simp_all

lemma ratio_black:
  assumes "is_zero z"
  shows "xyz_ratio (fdiv (fadd (fmul z (lit 100)) (lit 16)) (lit 116)) = Fin 0"
proof -
  have f16: "fl 16 = Fin 16" using fl_int [of 16] by simp
  have s: "fadd (fmul z (lit 100)) (lit 16) = lit 16"
    using assms by (cases z) (simp_all add: lit_small fmul_def fadd_def signed_zero_def f16)
  have "\<exists>q. fl (16 / 116) = Fin q \<and> 1 / 8 \<le> q \<and> q \<le> 5 / 32"
  proof (rule fl_between)
    show "rnd (1 / 8) = 1 / 8" by (rule rnd_dyadic [of "- 3" 1]) simp_all
    show "rnd (5 / 32) = 5 / 32" by (rule rnd_dyadic [of "- 5" 5]) simp_all
  qed simp_all
  then obtain q where q: "fl (16 / 116) = Fin q" "1 / 8 \<le> q" "q \<le> 5 / 32" by blast
  have q0: "0 < q" using q(2) by simp
  have d: "fdiv (lit 16) (lit 116) = Fin q" using q(1) by (simp add: lit_small fdiv_def)
  have "\<exists>w. fl (q * q) = Fin w \<and> 1 / 64 \<le> w \<and> w \<le> 25 / 1024"
  proof (rule fl_between)
    have "(1 / 8) * (1 / 8) \<le> q * q" using q(2) by (intro mult_mono) simp_all
    then show "1 / 64 \<le> q * q" by simp
    have "q * q \<le> (5 / 32) * (5 / 32)" using q(3) q0 by (intro mult_mono) simp_all
    then show "q * q \<le> 25 / 1024" by simp
    show "rnd (1 / 64) = 1 / 64" by (rule rnd_dyadic [of "- 6" 1]) simp_all
    show "rnd (25 / 1024) = 25 / 1024" by (rule rnd_dyadic [of "- 10" 25]) simp_all
  qed simp_all
  then obtain v2 where v2: "fl (q * q) = Fin v2" "1 / 64 \<le> v2" "v2 \<le> 25 / 1024" by blast
  have v20: "0 < v2" using v2(2) by simp
  have "\<exists>w. fl (v2 * q) = Fin w \<and> 1 / 512 \<le> w \<and> w \<le> 125 / 32768"
  proof (rule fl_between)
    have "(1 / 64) * (1 / 8) \<le> v2 * q" using v2(2) q(2) by (intro mult_mono) simp_all
    then show "1 / 512 \<le> v2 * q" by simp
    have "v2 * q \<le> (25 / 1024) * (5 / 32)" using v2(3) q(3) q0 v20 by (intro mult_mono) simp_all
    then show "v2 * q \<le> 125 / 32768" by simp
    show "rnd (1 / 512) = 1 / 512" by (rule rnd_dyadic [of "- 9" 1]) simp_all
    show "rnd (125 / 32768) = 125 / 32768" by (rule rnd_dyadic [of "- 15" 125]) simp_all
  qed simp_all
  then obtain v3 where v3: "fl (v2 * q) = Fin v3" "1 / 512 \<le> v3" "v3 \<le> 125 / 32768" by blast
  obtain t where t: "lit 0.008856451 = Fin t" "1 / 128 \<le> t" using lit_threshold by force
  obtain sl where sl: "lit 7.787037 = Fin sl" "4 \<le> sl" using lit_slope by force
  have cube: "fmul (fmul (Fin q) (Fin q)) (Fin q) = Fin v3"
    using q0 v20 v2(1) v3(1) by (simp add: fmul_def)
  have ng: "\<not> fgt (Fin v3) (Fin t)" using v3(3) t(2) by (simp add: fgt_def)
  have sub: "fsub (Fin q) (Fin q) = Fin 0" using q0 by (simp add: fsub_def fadd_def fl_zero)
  have dv: "fdiv (Fin 0) (Fin sl) = Fin 0" using sl(2) by (simp add: fdiv_def signed_zero_def)
  have "xyz_ratio (Fin q) = Fin 0"
    unfolding xyz_ratio_def Let_def cube t(1) d sl(1) using ng by (simp add: sub dv)
  then show ?thesis unfolding s d .
qed

lemma btw_finite:
  assumes "btw k K d" and "is_number d"
  shows "finite_number d \<and> \<not> is_zero d"
  using assms btw_not_zero [OF assms(1)] by (cases d) simp_all

lemma D65_unit_range:
  "btw (- 500) 500 (xyz_x D65_unit)" "btw (- 500) 500 (xyz_y D65_unit)"
  "btw (- 500) 500 (xyz_z D65_unit)"
proof -
  have "btw (- 1) 0 (fl 0.95047)" by (rule btw_fl) simp_all
  then have "btw (- 500) 500 (fl 0.95047)" by (rule btw_weaken) simp_all
  then show "btw (- 500) 500 (xyz_x D65_unit)" by (simp add: D65_unit_def lit_def)
  have "btw 0 0 (fl 1)" by (rule btw_fl) simp_all
  then have "btw (- 500) 500 (fl 1)" by (rule btw_weaken) simp_all
  then show "btw (- 500) 500 (xyz_y D65_unit)" by (simp add: D65_unit_def lit_def)
  have "btw 0 1 (fl 1.08883)" by (rule btw_fl) simp_all
  then have "btw (- 500) 500 (fl 1.08883)" by (rule btw_weaken) simp_all
  then show "btw (- 500) 500 (xyz_z D65_unit)" by (simp add: D65_unit_def lit_def)
qed

lemma D65_unit_finite:
  "finite_number (xyz_x D65_unit) \<and> \<not> is_zero (xyz_x D65_unit)"
  "finite_number (xyz_y D65_unit) \<and> \<not> is_zero (xyz_y D65_unit)"
  "finite_number (xyz_z D65_unit) \<and> \<not> is_zero (xyz_z D65_unit)"
proof -
  have n: "is_number (xyz_x D65_unit)" "is_number (xyz_y D65_unit)" "is_number (xyz_z D65_unit)"
    by (simp_all add: D65_unit_def lit_def is_number_fl)
  show "finite_number (xyz_x D65_unit) \<and> \<not> is_zero (xyz_x D65_unit)"
    using D65_unit_range(1) n(1) by (rule btw_finite)
  show "finite_number (xyz_y D65_unit) \<and> \<not> is_zero (xyz_y D65_unit)"
    using D65_unit_range(2) n(2) by (rule btw_finite)
  show "finite_number (xyz_z D65_unit) \<and> \<not> is_zero (xyz_z D65_unit)"
    using D65_unit_range(3) n(3) by (rule btw_finite)
qed
section \<open>Asymmetry\<close>

text \<open>
  C7: \<^verbatim>\<open>distanceTo\<close> is not symmetric. There are two colours with finite components
  and different chromas whose two distances are both numbers and are not equal: from
  \<open>(0, 1, 0)\<close> to \<open>(0, 0, 0)\<close> the distance is at most \<open>255 / 256\<close>, the chroma
  difference being divided by \<open>Sc > 1\<close>, and from \<open>(0, 0, 0)\<close> to \<open>(0, 1, 0)\<close> it
  is \<open>1\<close>, since then \<open>Sc = 1\<close>.
\<close>

theorem distanceTo_not_symmetric:
  "\<exists>h X Y l1 a1 b1 l2 a2 b2.
     holds h X l1 a1 b1 \<and> holds h Y l2 a2 b2 \<and>
     finite_number l1 \<and> finite_number a1 \<and> finite_number b1 \<and>
     finite_number l2 \<and> finite_number a2 \<and> finite_number b2 \<and>
     \<not> feq (distanceToGray h X) (distanceToGray h Y) \<and>
     distanceTo h X Y \<noteq> NaN \<and> distanceTo h Y X \<noteq> NaN \<and>
     \<not> feq (distanceTo h X Y) (distanceTo h Y X)"
proof -
  define h :: heap where "h = [[Fin 0, Fin 1, Fin 0], [Fin 0, Fin 0, Fin 0]]"
  define X where "X = \<lparr>values_ref = 0\<rparr>"
  define Y where "Y = \<lparr>values_ref = 1\<rparr>"
  have X: "holds h X (Fin 0) (Fin 1) (Fin 0)" and Y: "holds h Y (Fin 0) (Fin 0) (Fin 0)"
    by (simp_all add: holds_def h_def X_def Y_def)
  then have hX: "h ! values_ref X = [Fin 0, Fin 1, Fin 0]"
    and hY: "h ! values_ref Y = [Fin 0, Fin 0, Fin 0]"
    by (simp_all add: holds_def)
  from dist_XY [OF hX hY] obtain r where r: "distanceTo h X Y = Fin r" "r \<le> 255 / 256"
    by blast
  have yx: "distanceTo h Y X = Fin 1" using hX hY by (rule dist_YX)
  have gx: "distanceToGray h X = Fin 1"
    using holds_get [OF X] by (simp add: distanceToGray_def arith_defs fl_small)
  have gy: "distanceToGray h Y = Fin 0"
    using holds_get [OF Y] by (simp add: distanceToGray_def arith_defs fl_small)
  have "\<not> feq (distanceToGray h X) (distanceToGray h Y)"
    unfolding gx gy by (simp add: feq_def)
  moreover have "\<not> feq (distanceTo h X Y) (distanceTo h Y X)"
    unfolding r(1) yx using r(2) by (simp add: feq_def)
  moreover have "finite_number (Fin 0)" and "finite_number (Fin 1)"
    by (simp_all add: fl_small)
  ultimately show ?thesis using X Y r(1) yx by (intro exI [of _ h] exI [of _ X] exI [of _ Y] exI [of _ "Fin 0"] exI [of _ "Fin 1"]) simp
qed

section \<open>Distance zero\<close>

text \<open>
  C3, as the code has it. When the two colours are numerically identical in their three
  finite components and the chroma of the first has not overflowed to the infinity, the
  distance is \<open>0\<close>; that is so in particular for the distance of a colour to itself.
  Conversely, when the six components are finite of magnitude at most \<open>2 powi 100\<close>
  and two corresponding components differ by at least \<open>2 powi - 100\<close>, the distance
  is greater than \<open>0\<close>.
\<close>

theorem distanceTo_zero:
  assumes "holds h X l1 a1 b1" and "holds h Y l2 a2 b2"
  shows "(finite_number l1 \<and> finite_number a1 \<and> finite_number b1 \<and>
      finite_number l2 \<and> finite_number a2 \<and> finite_number b2 \<and>
      feq l1 l2 \<and> feq a1 a2 \<and> feq b1 b2 \<and> distanceToGray h X \<noteq> PosInf \<longrightarrow>
        distanceTo h X Y = Fin 0) \<and>
    (mag 100 l1 \<and> mag 100 a1 \<and> mag 100 b1 \<and> mag 100 l2 \<and> mag 100 a2 \<and> mag 100 b2 \<and>
      (2 powi - 100 \<le> \<bar>val l1 - val l2\<bar> \<or> 2 powi - 100 \<le> \<bar>val a1 - val a2\<bar> \<or>
       2 powi - 100 \<le> \<bar>val b1 - val b2\<bar>) \<longrightarrow>
        flt (Fin 0) (distanceTo h X Y))"
proof (intro conjI impI)
  assume a: "finite_number l1 \<and> finite_number a1 \<and> finite_number b1 \<and>
      finite_number l2 \<and> finite_number a2 \<and> finite_number b2 \<and>
      feq l1 l2 \<and> feq a1 a2 \<and> feq b1 b2 \<and> distanceToGray h X \<noteq> PosInf"
  then have c: "fsqrt (fadd (fmul a1 a1) (fmul b1 b1)) \<noteq> PosInf"
    using gray_formula [OF assms(1)] by simp
  have "distanceTo h X Y = fsqrt (fmul (fsub l1 l2) (fsub l1 l2))"
    using holds_nth [OF assms(1)] holds_nth [OF assms(2)] _ _ _ _ _ _ c
    by (rule dist_same_ab) (use a in simp_all)
  also have "fmul (fsub l1 l2) (fsub l1 l2) = Fin 0"
    using a by (intro zero_sq fsub_feq) simp_all
  finally show "distanceTo h X Y = Fin 0" by (simp add: fl_zero)
next
  assume b: "mag 100 l1 \<and> mag 100 a1 \<and> mag 100 b1 \<and> mag 100 l2 \<and> mag 100 a2 \<and> mag 100 b2 \<and>
      (2 powi - 100 \<le> \<bar>val l1 - val l2\<bar> \<or> 2 powi - 100 \<le> \<bar>val a1 - val a2\<bar> \<or>
       2 powi - 100 \<le> \<bar>val b1 - val b2\<bar>)"
  have "\<exists>r. distanceTo h X Y = Fin r \<and> 0 < r"
    using holds_nth [OF assms(1)] holds_nth [OF assms(2)]
    by (rule dist_separated) (use b in simp_all)
  then show "flt (Fin 0) (distanceTo h X Y)" by auto
qed

theorem distanceTo_zero_witness:
  "holds [[Fin 1, Fin 1, Fin 0], [Fin 0, Fin 1, Fin 0]] \<lparr>values_ref = 0\<rparr> (Fin 1) (Fin 1) (Fin 0) \<and>
   holds [[Fin 1, Fin 1, Fin 0], [Fin 0, Fin 1, Fin 0]] \<lparr>values_ref = 1\<rparr> (Fin 0) (Fin 1) (Fin 0) \<and>
   finite_number (Fin 1) \<and> finite_number (Fin 0) \<and> feq (Fin 1) (Fin 1) \<and> feq (Fin 0) (Fin 0) \<and>
   distanceToGray [[Fin 1, Fin 1, Fin 0], [Fin 0, Fin 1, Fin 0]] \<lparr>values_ref = 0\<rparr> \<noteq> PosInf \<and>
   distanceTo [[Fin 1, Fin 1, Fin 0], [Fin 0, Fin 1, Fin 0]] \<lparr>values_ref = 0\<rparr> \<lparr>values_ref = 0\<rparr> =
     Fin 0 \<and>
   mag 100 (Fin 1) \<and> mag 100 (Fin 0) \<and> 2 powi - 100 \<le> \<bar>val (Fin 1) - val (Fin 0)\<bar> \<and>
   flt (Fin 0) (distanceTo [[Fin 1, Fin 1, Fin 0], [Fin 0, Fin 1, Fin 0]] \<lparr>values_ref = 0\<rparr>
     \<lparr>values_ref = 1\<rparr>)"
proof -
  have x: "holds [[Fin 1, Fin 1, Fin 0], [Fin 0, Fin 1, Fin 0]] \<lparr>values_ref = 0\<rparr> (Fin 1) (Fin 1) (Fin 0)"
    and y: "holds [[Fin 1, Fin 1, Fin 0], [Fin 0, Fin 1, Fin 0]] \<lparr>values_ref = 1\<rparr> (Fin 0) (Fin 1) (Fin 0)"
    by (simp_all add: holds_def)
  have f: "finite_number (Fin 1)" "finite_number (Fin 0)" by (simp_all add: fl_small)
  have e: "feq (Fin 1) (Fin 1)" "feq (Fin 0) (Fin 0)" by (simp_all add: feq_def)
  have g: "distanceToGray [[Fin 1, Fin 1, Fin 0], [Fin 0, Fin 1, Fin 0]] \<lparr>values_ref = 0\<rparr> \<noteq> PosInf"
    using gray_unit [of "[[Fin 1, Fin 1, Fin 0], [Fin 0, Fin 1, Fin 0]]" "\<lparr>values_ref = 0\<rparr>" "Fin 1"]
    by simp
  have "(2::real) powi - 100 \<le> 2 powi 0" unfolding p2_le_iff by simp
  then have s: "2 powi - 100 \<le> \<bar>val (Fin 1) - val (Fin 0)\<bar>" by simp
  have "(2::real) powi 0 \<le> 2 powi 100" unfolding p2_le_iff by simp
  then have m: "mag 100 (Fin 1)" "mag 100 (Fin 0)" by simp_all
  from distanceTo_zero [OF x x] f e g
  have d1: "distanceTo [[Fin 1, Fin 1, Fin 0], [Fin 0, Fin 1, Fin 0]] \<lparr>values_ref = 0\<rparr>
      \<lparr>values_ref = 0\<rparr> = Fin 0"
    by blast
  from distanceTo_zero [OF x y] m s
  have d2: "flt (Fin 0) (distanceTo [[Fin 1, Fin 1, Fin 0], [Fin 0, Fin 1, Fin 0]]
      \<lparr>values_ref = 0\<rparr> \<lparr>values_ref = 1\<rparr>)"
    by blast
  show ?thesis by (intro conjI x y f e g d1 m s d2)
qed

text \<open>
  C3 as stated fails in both directions. The colours \<open>(2 powi - 600, 0, 0)\<close> and
  \<open>(0, 0, 0)\<close> have finite components and differ, and their distance is \<open>0\<close>: the
  square of the lightness difference underflows. The colour \<open>(0, 2 powi 600, 0)\<close> has
  finite components and its distance to itself is \<open>NaN\<close>: the square of \<open>a\<close>
  overflows, and the chroma difference is infinity minus infinity.
\<close>

theorem distanceTo_zero_iff_counterexample:
  "holds [[Fin (2 powi - 600), Fin 0, Fin 0], [Fin 0, Fin 0, Fin 0]] \<lparr>values_ref = 0\<rparr>
     (Fin (2 powi - 600)) (Fin 0) (Fin 0) \<and>
   holds [[Fin (2 powi - 600), Fin 0, Fin 0], [Fin 0, Fin 0, Fin 0]] \<lparr>values_ref = 1\<rparr>
     (Fin 0) (Fin 0) (Fin 0) \<and>
   finite_number (Fin (2 powi - 600)) \<and> finite_number (Fin 0) \<and>
   \<not> feq (Fin (2 powi - 600)) (Fin 0) \<and>
   feq (distanceTo [[Fin (2 powi - 600), Fin 0, Fin 0], [Fin 0, Fin 0, Fin 0]]
     \<lparr>values_ref = 0\<rparr> \<lparr>values_ref = 1\<rparr>) (Fin 0) \<and>
   holds [[Fin 0, Fin (2 powi 600), Fin 0]] \<lparr>values_ref = 0\<rparr> (Fin 0) (Fin (2 powi 600)) (Fin 0) \<and>
   finite_number (Fin (2 powi 600)) \<and>
   \<not> feq (distanceTo [[Fin 0, Fin (2 powi 600), Fin 0]] \<lparr>values_ref = 0\<rparr> \<lparr>values_ref = 0\<rparr>)
     (Fin 0)"
proof -
  have u: "fl (2 powi - 600) = Fin (2 powi - 600)" by (rule fl_pow2) simp_all
  have v: "fl (2 powi 600) = Fin (2 powi 600)" by (rule fl_pow2) simp_all
  have nz: "(2::real) powi - 600 \<noteq> 0" by simp
  have d1: "distanceTo [[Fin (2 powi - 600), Fin 0, Fin 0], [Fin 0, Fin 0, Fin 0]]
     \<lparr>values_ref = 0\<rparr> \<lparr>values_ref = 1\<rparr> = Fin 0"
    by (rule dist_underflow [OF _ u small_sq]) simp_all
  have d2: "distanceTo [[Fin 0, Fin (2 powi 600), Fin 0]] \<lparr>values_ref = 0\<rparr> \<lparr>values_ref = 0\<rparr> = NaN"
    by (rule dist_overflow_self [OF _ big_sq]) simp_all
  have h1: "holds [[Fin (2 powi - 600), Fin 0, Fin 0], [Fin 0, Fin 0, Fin 0]]
      \<lparr>values_ref = 0\<rparr> (Fin (2 powi - 600)) (Fin 0) (Fin 0)"
    and h2: "holds [[Fin (2 powi - 600), Fin 0, Fin 0], [Fin 0, Fin 0, Fin 0]]
      \<lparr>values_ref = 1\<rparr> (Fin 0) (Fin 0) (Fin 0)"
    and h3: "holds [[Fin 0, Fin (2 powi 600), Fin 0]] \<lparr>values_ref = 0\<rparr>
      (Fin 0) (Fin (2 powi 600)) (Fin 0)"
    unfolding holds_def by simp_all
  have f1: "finite_number (Fin (2 powi - 600))" and f2: "finite_number (Fin (2 powi 600))"
    and f3: "finite_number (Fin 0)"
    unfolding finite_number.simps by (rule u, rule v, rule fl_zero)
  have n1: "\<not> feq (Fin (2 powi - 600)) (Fin 0)"
    unfolding feq_def using nz by simp
  have e1: "feq (Fin 0) (Fin 0)" and e2: "\<not> feq NaN (Fin 0)" by (simp_all add: feq_def)
  show ?thesis
    unfolding d1 d2 by (intro conjI h1 h2 h3 f1 f2 f3 n1 e1 e2)
qed

section \<open>The sign of the distance\<close>

text \<open>
  C4, as the code has it: \<^verbatim>\<open>distanceTo\<close> never returns a negative number: its result
  is \<open>NaN\<close> or at least \<open>0\<close>, whatever the inputs and whatever the sign of the hue
  radicand before its clamp. When the six components are finite and of magnitude at most
  \<open>2 powi 500\<close>, nothing overflows and the result is at least \<open>0\<close>. The two guarded
  square roots are those of the specification's formula, taken of a clamped value, and a
  clamped value is never negative.
\<close>

theorem distanceTo_not_negative:
  assumes "holds h X l1 a1 b1" and "holds h Y l2 a2 b2"
  shows "(distanceTo h X Y = NaN \<or> fge (distanceTo h X Y) (Fin 0)) \<and>
    (mag 500 l1 \<and> mag 500 a1 \<and> mag 500 b1 \<and> mag 500 l2 \<and> mag 500 a2 \<and> mag 500 b2 \<longrightarrow>
       fge (distanceTo h X Y) (Fin 0)) \<and>
    distanceTo h X Y = spec_cie94 l1 a1 b1 l2 a2 b2 \<and>
    (\<forall>v. \<not> flt (clamp0 v) (Fin 0))"
proof -
  have "fge (distanceTo h X Y) (Fin 0)"
    if "mag 500 l1" "mag 500 a1" "mag 500 b1" "mag 500 l2" "mag 500 a2" "mag 500 b2"
    using holds_nth [OF assms(1)] holds_nth [OF assms(2)] that
    by (intro nonneg_fge dist_bounded)
  moreover have "distanceTo h X Y = spec_cie94 l1 a1 b1 l2 a2 b2"
    using assms by (rule dist_spec)
  ultimately show ?thesis using dist_sign [of h X Y] clamp0_not_negative by blast
qed

text \<open>
  The theorem at \<open>(0, 0, 0)\<close> and \<open>(0, 1 / 2, 1 / 2)\<close>: the chroma of the second
  colour is the rounded root of \<open>1 / 2\<close>, its square is rounded up to
  \<open>1 / 2 + 1 / 2 ^ 53\<close>, and the hue radicand is \<open>- (1 / 2 ^ 53)\<close>, negative before
  the clamp.
\<close>

theorem distanceTo_not_negative_witness:
  "holds [[Fin 0, Fin 0, Fin 0], [Fin 0, Fin (1 / 2), Fin (1 / 2)]] \<lparr>values_ref = 0\<rparr>
     (Fin 0) (Fin 0) (Fin 0) \<and>
   holds [[Fin 0, Fin 0, Fin 0], [Fin 0, Fin (1 / 2), Fin (1 / 2)]] \<lparr>values_ref = 1\<rparr>
     (Fin 0) (Fin (1 / 2)) (Fin (1 / 2)) \<and>
   mag 500 (Fin 0) \<and> mag 500 (Fin (1 / 2)) \<and>
   flt (spec_radicand (Fin 0) (Fin 0) (Fin (1 / 2)) (Fin (1 / 2))) (Fin 0) \<and>
   fge (distanceTo [[Fin 0, Fin 0, Fin 0], [Fin 0, Fin (1 / 2), Fin (1 / 2)]]
     \<lparr>values_ref = 0\<rparr> \<lparr>values_ref = 1\<rparr>) (Fin 0)"
proof -
  have x: "holds [[Fin 0, Fin 0, Fin 0], [Fin 0, Fin (1 / 2), Fin (1 / 2)]] \<lparr>values_ref = 0\<rparr>
     (Fin 0) (Fin 0) (Fin 0)"
    and y: "holds [[Fin 0, Fin 0, Fin 0], [Fin 0, Fin (1 / 2), Fin (1 / 2)]] \<lparr>values_ref = 1\<rparr>
     (Fin 0) (Fin (1 / 2)) (Fin (1 / 2))"
    by (simp_all add: holds_def)
  have "(1::real) \<le> 2 powi 500" by (rule one_le_power_int) simp_all
  then have m: "mag 500 (Fin 0)" "mag 500 (Fin (1 / 2))" by simp_all
  have r: "flt (spec_radicand (Fin 0) (Fin 0) (Fin (1 / 2)) (Fin (1 / 2))) (Fin 0)"
    unfolding radicand_negative by simp
  from distanceTo_not_negative [OF x y] m x y r show ?thesis by blast
qed

text \<open>
  C4 as stated fails: the colours \<open>(0, 2 powi 700, 0)\<close> and \<open>(0, 0, 0)\<close> have
  finite components and their distance is \<open>NaN\<close>, which is not at least \<open>0\<close>. The
  square of \<open>a\<close> overflows, the hue radicand is infinity minus infinity, and neither
  guard catches a \<open>NaN\<close>.
\<close>

theorem distanceTo_not_negative_counterexample:
  "holds [[Fin 0, Fin (2 powi 700), Fin 0], [Fin 0, Fin 0, Fin 0]] \<lparr>values_ref = 0\<rparr>
     (Fin 0) (Fin (2 powi 700)) (Fin 0) \<and>
   holds [[Fin 0, Fin (2 powi 700), Fin 0], [Fin 0, Fin 0, Fin 0]] \<lparr>values_ref = 1\<rparr>
     (Fin 0) (Fin 0) (Fin 0) \<and>
   finite_number (Fin (2 powi 700)) \<and> finite_number (Fin 0) \<and>
   distanceTo [[Fin 0, Fin (2 powi 700), Fin 0], [Fin 0, Fin 0, Fin 0]]
     \<lparr>values_ref = 0\<rparr> \<lparr>values_ref = 1\<rparr> = NaN \<and>
   \<not> fge (distanceTo [[Fin 0, Fin (2 powi 700), Fin 0], [Fin 0, Fin 0, Fin 0]]
     \<lparr>values_ref = 0\<rparr> \<lparr>values_ref = 1\<rparr>) (Fin 0)"
proof -
  have v: "fl (2 powi 700) = Fin (2 powi 700)" by (rule fl_pow2) simp_all
  have d: "distanceTo [[Fin 0, Fin (2 powi 700), Fin 0], [Fin 0, Fin 0, Fin 0]]
     \<lparr>values_ref = 0\<rparr> \<lparr>values_ref = 1\<rparr> = NaN"
    by (rule dist_overflow [OF _ v big_sq']) simp_all
  have h1: "holds [[Fin 0, Fin (2 powi 700), Fin 0], [Fin 0, Fin 0, Fin 0]] \<lparr>values_ref = 0\<rparr>
     (Fin 0) (Fin (2 powi 700)) (Fin 0)"
    and h2: "holds [[Fin 0, Fin (2 powi 700), Fin 0], [Fin 0, Fin 0, Fin 0]] \<lparr>values_ref = 1\<rparr>
     (Fin 0) (Fin 0) (Fin 0)"
    unfolding holds_def by simp_all
  have f1: "finite_number (Fin (2 powi 700))" and f2: "finite_number (Fin 0)"
    unfolding finite_number.simps by (rule v, rule fl_zero)
  have n: "\<not> fge (distanceTo [[Fin 0, Fin (2 powi 700), Fin 0], [Fin 0, Fin 0, Fin 0]]
     \<lparr>values_ref = 0\<rparr> \<lparr>values_ref = 1\<rparr>) (Fin 0)"
    unfolding d by (simp add: fge_def feq_def)
  show ?thesis by (intro conjI h1 h2 f1 f2 d n)
qed

section \<open>Colours with the same a and b\<close>

text \<open>
  C9, as the code has it: for two colours with the same finite \<open>a\<close> and \<open>b\<close> whose
  chroma has not overflowed, the distance is the binary64 square root of the binary64
  square of the lightness difference \<open>d = l1 - l2\<close>, itself a binary64 difference. It
  is \<open>0\<close> when \<open>d\<close> is zero, and it is the absolute value of \<open>d\<close> when that lies
  between \<open>2 powi - 500\<close> and \<open>2 powi 500\<close>, where the square neither underflows
  nor overflows.
\<close>

theorem distanceTo_same_ab_lightness:
  assumes "holds h X l1 a b" and "holds h Y l2 a b"
    and "finite_number a" and "finite_number b"
    and "distanceToGray h X \<noteq> PosInf"
  shows "distanceTo h X Y = fsqrt (fmul (fsub l1 l2) (fsub l1 l2)) \<and>
    (is_zero (fsub l1 l2) \<longrightarrow> distanceTo h X Y = Fin 0) \<and>
    (\<forall>v. fsub l1 l2 = Fin v \<and> 2 powi - 500 \<le> \<bar>v\<bar> \<and> \<bar>v\<bar> \<le> 2 powi 500 \<longrightarrow>
       distanceTo h X Y = Fin \<bar>v\<bar>)"
proof -
  have c: "fsqrt (fadd (fmul a a) (fmul b b)) \<noteq> PosInf"
    using assms(5) gray_formula [OF assms(1)] by simp
  have d: "distanceTo h X Y = fsqrt (fmul (fsub l1 l2) (fsub l1 l2))"
    using holds_nth [OF assms(1)] holds_nth [OF assms(2)] assms(3,4,3,4)
      feq_refl [OF assms(3)] feq_refl [OF assms(4)] c
    by (rule dist_same_ab)
  have z: "distanceTo h X Y = Fin 0" if "is_zero (fsub l1 l2)"
    unfolding d zero_sq [OF that] by (simp add: fl_zero)
  have "distanceTo h X Y = Fin \<bar>v\<bar>"
    if "fsub l1 l2 = Fin v" and "2 powi - 500 \<le> \<bar>v\<bar>" and "\<bar>v\<bar> \<le> 2 powi 500" for v
  proof -
    have "is_number (fsub l1 l2)" by (rule is_number_fsub)
    then have "fl v = Fin v" by (simp add: that(1))
    then show ?thesis unfolding d that(1) using that(2,3) by (rule fsqrt_fsq)
  qed
  with d z show ?thesis by blast
qed

theorem distanceTo_same_ab_lightness_witness:
  "holds [[Fin 3, Fin 0, Fin 0], [Fin 1, Fin 0, Fin 0]] \<lparr>values_ref = 0\<rparr> (Fin 3) (Fin 0) (Fin 0) \<and>
   holds [[Fin 3, Fin 0, Fin 0], [Fin 1, Fin 0, Fin 0]] \<lparr>values_ref = 1\<rparr> (Fin 1) (Fin 0) (Fin 0) \<and>
   finite_number (Fin 0) \<and>
   distanceToGray [[Fin 3, Fin 0, Fin 0], [Fin 1, Fin 0, Fin 0]] \<lparr>values_ref = 0\<rparr> \<noteq> PosInf \<and>
   fsub (Fin 3) (Fin 1) = Fin 2 \<and> 2 powi - 500 \<le> \<bar>2 :: real\<bar> \<and> \<bar>2 :: real\<bar> \<le> 2 powi 500 \<and>
   distanceTo [[Fin 3, Fin 0, Fin 0], [Fin 1, Fin 0, Fin 0]] \<lparr>values_ref = 0\<rparr> \<lparr>values_ref = 1\<rparr> =
     Fin 2 \<and>
   is_zero (fsub (Fin 3) (Fin 3)) \<and>
   distanceTo [[Fin 3, Fin 0, Fin 0], [Fin 1, Fin 0, Fin 0]] \<lparr>values_ref = 0\<rparr> \<lparr>values_ref = 0\<rparr> =
     Fin 0"
proof -
  have x: "holds [[Fin 3, Fin 0, Fin 0], [Fin 1, Fin 0, Fin 0]] \<lparr>values_ref = 0\<rparr> (Fin 3) (Fin 0) (Fin 0)"
    and y: "holds [[Fin 3, Fin 0, Fin 0], [Fin 1, Fin 0, Fin 0]] \<lparr>values_ref = 1\<rparr> (Fin 1) (Fin 0) (Fin 0)"
    by (simp_all add: holds_def)
  have f: "finite_number (Fin 0)" by (simp add: fl_small)
  have g: "distanceToGray [[Fin 3, Fin 0, Fin 0], [Fin 1, Fin 0, Fin 0]] \<lparr>values_ref = 0\<rparr> \<noteq> PosInf"
    using gray_zero [of "[[Fin 3, Fin 0, Fin 0], [Fin 1, Fin 0, Fin 0]]" "\<lparr>values_ref = 0\<rparr>" "Fin 3"]
    by simp
  have s: "fsub (Fin 3) (Fin 1) = Fin 2" using fl_int [of 2] by (simp add: arith_defs)
  have "(2::real) powi - 500 \<le> 2 powi 1" and "(2::real) powi 1 \<le> 2 powi 500"
    unfolding p2_le_iff by simp_all
  then have b: "2 powi - 500 \<le> \<bar>2 :: real\<bar>" "\<bar>2 :: real\<bar> \<le> 2 powi 500" by simp_all
  have z: "is_zero (fsub (Fin 3) (Fin 3))" by (simp add: arith_defs fl_zero)
  from distanceTo_same_ab_lightness [OF x y f f g] s b
  have d1: "distanceTo [[Fin 3, Fin 0, Fin 0], [Fin 1, Fin 0, Fin 0]] \<lparr>values_ref = 0\<rparr>
      \<lparr>values_ref = 1\<rparr> = Fin \<bar>2\<bar>"
    by blast
  then have d1': "distanceTo [[Fin 3, Fin 0, Fin 0], [Fin 1, Fin 0, Fin 0]] \<lparr>values_ref = 0\<rparr>
      \<lparr>values_ref = 1\<rparr> = Fin 2"
    by simp
  from distanceTo_same_ab_lightness [OF x x f f g] z
  have d2: "distanceTo [[Fin 3, Fin 0, Fin 0], [Fin 1, Fin 0, Fin 0]] \<lparr>values_ref = 0\<rparr>
      \<lparr>values_ref = 0\<rparr> = Fin 0"
    by blast
  show ?thesis by (intro conjI x y f g s b d1' z d2)
qed

text \<open>
  C9 as stated fails: the colours \<open>(2 powi - 700, 0, 0)\<close> and \<open>(0, 0, 0)\<close> share
  \<open>a\<close> and \<open>b\<close>, their lightness difference is \<open>2 powi - 700\<close>, and their distance
  is \<open>0\<close>, the square of the difference underflowing.
\<close>

theorem distanceTo_lightness_counterexample:
  "holds [[Fin (2 powi - 700), Fin 0, Fin 0], [Fin 0, Fin 0, Fin 0]] \<lparr>values_ref = 0\<rparr>
     (Fin (2 powi - 700)) (Fin 0) (Fin 0) \<and>
   holds [[Fin (2 powi - 700), Fin 0, Fin 0], [Fin 0, Fin 0, Fin 0]] \<lparr>values_ref = 1\<rparr>
     (Fin 0) (Fin 0) (Fin 0) \<and>
   finite_number (Fin (2 powi - 700)) \<and> finite_number (Fin 0) \<and>
   fsub (Fin (2 powi - 700)) (Fin 0) = Fin (2 powi - 700) \<and>
   distanceTo [[Fin (2 powi - 700), Fin 0, Fin 0], [Fin 0, Fin 0, Fin 0]]
     \<lparr>values_ref = 0\<rparr> \<lparr>values_ref = 1\<rparr> = Fin 0 \<and>
   \<not> feq (distanceTo [[Fin (2 powi - 700), Fin 0, Fin 0], [Fin 0, Fin 0, Fin 0]]
     \<lparr>values_ref = 0\<rparr> \<lparr>values_ref = 1\<rparr>) (Fin \<bar>2 powi - 700\<bar>)"
proof -
  have u: "fl (2 powi - 700) = Fin (2 powi - 700)" by (rule fl_pow2) simp_all
  have nz: "(2::real) powi - 700 \<noteq> 0" by simp
  have d: "distanceTo [[Fin (2 powi - 700), Fin 0, Fin 0], [Fin 0, Fin 0, Fin 0]]
     \<lparr>values_ref = 0\<rparr> \<lparr>values_ref = 1\<rparr> = Fin 0"
    by (rule dist_underflow [OF _ u small_sq']) simp_all
  have h1: "holds [[Fin (2 powi - 700), Fin 0, Fin 0], [Fin 0, Fin 0, Fin 0]]
      \<lparr>values_ref = 0\<rparr> (Fin (2 powi - 700)) (Fin 0) (Fin 0)"
    and h2: "holds [[Fin (2 powi - 700), Fin 0, Fin 0], [Fin 0, Fin 0, Fin 0]]
      \<lparr>values_ref = 1\<rparr> (Fin 0) (Fin 0) (Fin 0)"
    unfolding holds_def by simp_all
  have f1: "finite_number (Fin (2 powi - 700))" and f2: "finite_number (Fin 0)"
    unfolding finite_number.simps by (rule u, rule fl_zero)
  have s: "fsub (Fin (2 powi - 700)) (Fin 0) = Fin (2 powi - 700)"
    unfolding fsub_def fadd_def using u by simp
  have n: "\<not> feq (distanceTo [[Fin (2 powi - 700), Fin 0, Fin 0], [Fin 0, Fin 0, Fin 0]]
     \<lparr>values_ref = 0\<rparr> \<lparr>values_ref = 1\<rparr>) (Fin \<bar>2 powi - 700\<bar>)"
    unfolding d feq_def using nz by simp
  show ?thesis by (intro conjI h1 h2 f1 f2 s d n)
qed

section \<open>Neutral colours\<close>

text \<open>
  C10, as the code has it: for a neutral colour (\<open>a\<close> and \<open>b\<close> zero) the three
  ratios of \<^verbatim>\<open>toXYZ()\<close> are one and the same number \<open>r\<close>, and the result is
  \<open>(r * D65.x, r * D65.y, r * D65.z)\<close>, each product rounded to binary64. The
  quotients \<open>x / D65.x\<close>, \<open>y / D65.y\<close>, \<open>z / D65.z\<close> are near \<open>r\<close>, not equal to
  it: when \<open>r\<close> is finite and of magnitude between \<open>2 powi - 500\<close> and
  \<open>2 powi 500\<close>, the quotient by each component of the white point that is finite and
  of magnitude in that range is a finite number \<open>q\<close> with
  \<open>\<bar>q - r\<bar> \<le> \<bar>r\<bar> / 2 ^ 51\<close>; when \<open>r\<close> is a zero, the quotient by each component that
  is finite and not a zero is a zero. A lightness from \<open>1 / 4\<close> to \<open>2 powi 100\<close> gives
  an \<open>r\<close> between \<open>2 powi - 5\<close> and \<open>2 powi 306\<close>, and a zero lightness gives a
  zero \<open>r\<close>.
\<close>

theorem toXYZ_neutral:
  assumes "holds h c l a b" and "is_zero a" and "is_zero b"
  shows "let r = xyz_ratio (fdiv (fadd (fmul l (lit 100)) (lit 16)) (lit 116));
      t = toXYZ D65 h c
    in t = \<lparr>xyz_x = fmul r (xyz_x D65), xyz_y = fmul r (xyz_y D65),
             xyz_z = fmul r (xyz_z D65)\<rparr> \<and>
       (btw (- 500) 500 r \<longrightarrow>
          (btw (- 500) 500 (xyz_x D65) \<longrightarrow> close_to r (fdiv (xyz_x t) (xyz_x D65))) \<and>
          (btw (- 500) 500 (xyz_y D65) \<longrightarrow> close_to r (fdiv (xyz_y t) (xyz_y D65))) \<and>
          (btw (- 500) 500 (xyz_z D65) \<longrightarrow> close_to r (fdiv (xyz_z t) (xyz_z D65)))) \<and>
       (is_zero r \<longrightarrow>
          (finite_number (xyz_x D65) \<and> \<not> is_zero (xyz_x D65) \<longrightarrow>
             is_zero (fdiv (xyz_x t) (xyz_x D65))) \<and>
          (finite_number (xyz_y D65) \<and> \<not> is_zero (xyz_y D65) \<longrightarrow>
             is_zero (fdiv (xyz_y t) (xyz_y D65))) \<and>
          (finite_number (xyz_z D65) \<and> \<not> is_zero (xyz_z D65) \<longrightarrow>
             is_zero (fdiv (xyz_z t) (xyz_z D65)))) \<and>
       (\<forall>v. l = Fin v \<and> 1 / 4 \<le> v \<and> v \<le> 2 powi 100 \<longrightarrow>
          btw (- 5) 306 r \<and> btw (- 500) 500 r) \<and>
       (is_zero l \<longrightarrow> is_zero r)"
proof -
  define r where "r = xyz_ratio (fdiv (fadd (fmul l (lit 100)) (lit 16)) (lit 116))"
  define t where "t = toXYZ D65 h c"
  have f: "t = \<lparr>xyz_x = fmul r (xyz_x D65), xyz_y = fmul r (xyz_y D65),
      xyz_z = fmul r (xyz_z D65)\<rparr>"
    unfolding t_def r_def using assms by (rule toXYZ_neutral_ratio)
  have x: "xyz_x t = fmul r (xyz_x D65)" and y: "xyz_y t = fmul r (xyz_y D65)"
    and z: "xyz_z t = fmul r (xyz_z D65)" by (simp_all add: f)
  have near: "close_to r (fdiv (fmul r d) d)"
    if "btw (- 500) 500 r" and "btw (- 500) 500 d" for d
    using that by (rule quotient_close)
  have zero: "is_zero (fdiv (fmul r d) d)"
    if "is_zero r" and "finite_number d \<and> \<not> is_zero d" for d
    using that by (intro quotient_zero) simp_all
  have bright: "btw (- 5) 306 r \<and> btw (- 500) 500 r"
    if "l = Fin v \<and> 1 / 4 \<le> v \<and> v \<le> 2 powi 100" for v
  proof -
    from that have "btw (- 5) 306 r" unfolding r_def by (simp add: ratio_bright)
    moreover from this have "btw (- 500) 500 r" by (rule btw_weaken) simp_all
    ultimately show ?thesis by simp
  qed
  have black: "is_zero r" if "is_zero l" unfolding r_def using that by (simp add: ratio_black)
  have "t = \<lparr>xyz_x = fmul r (xyz_x D65), xyz_y = fmul r (xyz_y D65),
      xyz_z = fmul r (xyz_z D65)\<rparr> \<and>
    (btw (- 500) 500 r \<longrightarrow>
       (btw (- 500) 500 (xyz_x D65) \<longrightarrow> close_to r (fdiv (xyz_x t) (xyz_x D65))) \<and>
       (btw (- 500) 500 (xyz_y D65) \<longrightarrow> close_to r (fdiv (xyz_y t) (xyz_y D65))) \<and>
       (btw (- 500) 500 (xyz_z D65) \<longrightarrow> close_to r (fdiv (xyz_z t) (xyz_z D65)))) \<and>
    (is_zero r \<longrightarrow>
       (finite_number (xyz_x D65) \<and> \<not> is_zero (xyz_x D65) \<longrightarrow>
          is_zero (fdiv (xyz_x t) (xyz_x D65))) \<and>
       (finite_number (xyz_y D65) \<and> \<not> is_zero (xyz_y D65) \<longrightarrow>
          is_zero (fdiv (xyz_y t) (xyz_y D65))) \<and>
       (finite_number (xyz_z D65) \<and> \<not> is_zero (xyz_z D65) \<longrightarrow>
          is_zero (fdiv (xyz_z t) (xyz_z D65)))) \<and>
    (\<forall>v. l = Fin v \<and> 1 / 4 \<le> v \<and> v \<le> 2 powi 100 \<longrightarrow>
       btw (- 5) 306 r \<and> btw (- 500) 500 r) \<and>
    (is_zero l \<longrightarrow> is_zero r)"
    unfolding x y z using f near zero bright black by blast
  then show ?thesis unfolding Let_def r_def t_def .
qed

text \<open>
  The theorem at white and at black, with the white point \<open>(0.95047, 1, 1.08883)\<close>:
  the three quotients of white are near its ratio, and those of black are zeros.
\<close>

theorem toXYZ_neutral_witness:
  "holds [[Fin 1, Fin 0, Fin 0]] \<lparr>values_ref = 0\<rparr> (Fin 1) (Fin 0) (Fin 0) \<and>
   holds [[Fin 0, Fin 0, Fin 0]] \<lparr>values_ref = 0\<rparr> (Fin 0) (Fin 0) (Fin 0) \<and>
   is_zero (Fin 0) \<and> (1::real) / 4 \<le> 1 \<and> (1::real) \<le> 2 powi 100 \<and>
   btw (- 500) 500 (xyz_x D65_unit) \<and> btw (- 500) 500 (xyz_y D65_unit) \<and>
   btw (- 500) 500 (xyz_z D65_unit) \<and>
   finite_number (xyz_x D65_unit) \<and> \<not> is_zero (xyz_x D65_unit) \<and>
   finite_number (xyz_y D65_unit) \<and> \<not> is_zero (xyz_y D65_unit) \<and>
   finite_number (xyz_z D65_unit) \<and> \<not> is_zero (xyz_z D65_unit) \<and>
   (let r = xyz_ratio (fdiv (fadd (fmul (Fin 1) (lit 100)) (lit 16)) (lit 116));
        t = toXYZ D65_unit [[Fin 1, Fin 0, Fin 0]] \<lparr>values_ref = 0\<rparr>
    in t = \<lparr>xyz_x = fmul r (xyz_x D65_unit), xyz_y = fmul r (xyz_y D65_unit),
             xyz_z = fmul r (xyz_z D65_unit)\<rparr> \<and>
       btw (- 5) 306 r \<and> btw (- 500) 500 r \<and>
       close_to r (fdiv (xyz_x t) (xyz_x D65_unit)) \<and>
       close_to r (fdiv (xyz_y t) (xyz_y D65_unit)) \<and>
       close_to r (fdiv (xyz_z t) (xyz_z D65_unit))) \<and>
   (let r = xyz_ratio (fdiv (fadd (fmul (Fin 0) (lit 100)) (lit 16)) (lit 116));
        t = toXYZ D65_unit [[Fin 0, Fin 0, Fin 0]] \<lparr>values_ref = 0\<rparr>
    in t = \<lparr>xyz_x = fmul r (xyz_x D65_unit), xyz_y = fmul r (xyz_y D65_unit),
             xyz_z = fmul r (xyz_z D65_unit)\<rparr> \<and>
       is_zero r \<and>
       is_zero (fdiv (xyz_x t) (xyz_x D65_unit)) \<and>
       is_zero (fdiv (xyz_y t) (xyz_y D65_unit)) \<and>
       is_zero (fdiv (xyz_z t) (xyz_z D65_unit)))"
proof -
  have h1: "holds [[Fin 1, Fin 0, Fin 0]] \<lparr>values_ref = 0\<rparr> (Fin 1) (Fin 0) (Fin 0)"
    and h0: "holds [[Fin 0, Fin 0, Fin 0]] \<lparr>values_ref = 0\<rparr> (Fin 0) (Fin 0) (Fin 0)"
    by (simp_all add: holds_def)
  have z: "is_zero (Fin 0)" by simp
  have "(2::real) powi 0 \<le> 2 powi 100" by (simp only: p2_le_iff)
  then have le: "(1::real) \<le> 2 powi 100" by simp
  have q: "(1::real) / 4 \<le> 1" by simp
  note one = toXYZ_neutral [OF h1 z z, of D65_unit, unfolded Let_def]
  note nil = toXYZ_neutral [OF h0 z z, of D65_unit, unfolded Let_def]
  from one q le have r1: "btw (- 5) 306
      (xyz_ratio (fdiv (fadd (fmul (Fin 1) (lit 100)) (lit 16)) (lit 116)))"
    and r1': "btw (- 500) 500
      (xyz_ratio (fdiv (fadd (fmul (Fin 1) (lit 100)) (lit 16)) (lit 116)))"
    by blast+
  from nil z have r0: "is_zero
      (xyz_ratio (fdiv (fadd (fmul (Fin 0) (lit 100)) (lit 16)) (lit 116)))"
    by blast
  show ?thesis
    unfolding Let_def
    using h1 h0 z q le D65_unit_range D65_unit_finite one nil r1 r1' r0 by blast
qed

text \<open>
  C10 as stated fails: the quotients \<open>x / D65.x\<close> and \<open>y / D65.y\<close> are each rounded
  twice and need not be equal. With the white point \<open>(0.95047, 1, 1.08883)\<close> and the
  neutral colour of lightness \<open>1 / 4\<close> they differ in the last bit, and so do they with
  \<open>(95.047, 100, 108.883)\<close> and lightness \<open>3 / 4\<close>.
\<close>

theorem toXYZ_proportional_counterexample:
  "finite_number (Fin 0) \<and>
   holds [[Fin (1 / 4), Fin 0, Fin 0]] \<lparr>values_ref = 0\<rparr> (Fin (1 / 4)) (Fin 0) (Fin 0) \<and>
   finite_number (Fin (1 / 4)) \<and>
   \<not> feq (fdiv (xyz_x (toXYZ D65_unit [[Fin (1 / 4), Fin 0, Fin 0]] \<lparr>values_ref = 0\<rparr>)) (xyz_x D65_unit))
     (fdiv (xyz_y (toXYZ D65_unit [[Fin (1 / 4), Fin 0, Fin 0]] \<lparr>values_ref = 0\<rparr>)) (xyz_y D65_unit)) \<and>
   holds [[Fin (3 / 4), Fin 0, Fin 0]] \<lparr>values_ref = 0\<rparr> (Fin (3 / 4)) (Fin 0) (Fin 0) \<and>
   finite_number (Fin (3 / 4)) \<and>
   \<not> feq (fdiv (xyz_x (toXYZ D65_percent [[Fin (3 / 4), Fin 0, Fin 0]] \<lparr>values_ref = 0\<rparr>)) (xyz_x D65_percent))
     (fdiv (xyz_y (toXYZ D65_percent [[Fin (3 / 4), Fin 0, Fin 0]] \<lparr>values_ref = 0\<rparr>)) (xyz_y D65_percent))"
proof -
  have xn1: "fl (95047 / 100000) = Fin (8561072675653671 / 9007199254740992)"
    by (rule fl_normal [where k = "- 1" and m = 8561072675653671]) simp_all
  have yn1: "fl (1) = Fin (1)"
    by (rule fl_normal [where k = "0" and m = 4503599627370496]) simp_all
  have fy1: "fl (41 / 116) = Fin (795894761733579 / 2251799813685248)"
    by (rule fl_normal [where k = "- 2" and m = 6367158093868632]) simp_all
  have v21: "fl ((795894761733579 / 2251799813685248) * (795894761733579 / 2251799813685248)) = Fin (9001844201676341 / 72057594037927936)"
    by (rule fl_normal [where k = "- 4" and m = 9001844201676341]) simp_all
  have v31: "fl ((9001844201676341 / 72057594037927936) * (795894761733579 / 2251799813685248)) = Fin (3181686312661465 / 72057594037927936)"
    by (rule fl_normal [where k = "- 5" and m = 6363372625322930]) simp_all
  have x1: "fl ((3181686312661465 / 72057594037927936) * (8561072675653671 / 9007199254740992)) = Fin (3024097389595343 / 72057594037927936)"
    by (rule fl_normal [where k = "- 5" and m = 6048194779190686]) simp_all
  have y1: "fl ((3181686312661465 / 72057594037927936) * (1)) = Fin (3181686312661465 / 72057594037927936)"
    by (rule fl_normal [where k = "- 5" and m = 6363372625322930]) simp_all
  have qx1: "fl ((3024097389595343 / 72057594037927936) / (8561072675653671 / 9007199254740992)) = Fin (6363372625322931 / 144115188075855872)"
    by (rule fl_normal [where k = "- 5" and m = 6363372625322931]) simp_all
  have qy1: "fl ((3181686312661465 / 72057594037927936) / (1)) = Fin (3181686312661465 / 72057594037927936)"
    by (rule fl_normal [where k = "- 5" and m = 6363372625322930]) simp_all
  have h1: "holds [[Fin (1 / 4), Fin 0, Fin 0]] \<lparr>values_ref = 0\<rparr> (Fin (1 / 4)) (Fin 0) (Fin 0)"
    by (simp add: holds_def)
  have f1: "finite_number (Fin (1 / 4))"
    unfolding finite_number.simps by (rule fl_dyadic [of "- 2" 1]) simp_all
  have r1: "xyz_ratio (fdiv (fadd (fmul (Fin (1 / 4)) (lit 100)) (lit 16)) (lit 116)) = Fin (3181686312661465 / 72057594037927936)"
    by (rule xyz_ratio_cube [where a = 25 and b = 41, OF _ _ _ fy1 v21 v31])
      (simp_all add: fl_int' )
  have d1: "xyz_x D65_unit = Fin (8561072675653671 / 9007199254740992)" "xyz_y D65_unit = Fin (1)"
    using xn1 yn1 by (simp_all add: D65_unit_def lit_def)
  have n1: "\<not> feq (fdiv (xyz_x (toXYZ D65_unit [[Fin (1 / 4), Fin 0, Fin 0]] \<lparr>values_ref = 0\<rparr>)) (xyz_x D65_unit))
      (fdiv (xyz_y (toXYZ D65_unit [[Fin (1 / 4), Fin 0, Fin 0]] \<lparr>values_ref = 0\<rparr>)) (xyz_y D65_unit))"
    unfolding toXYZ_neutral_ratio [OF h1 zero_is_zero zero_is_zero] r1 d1
    using x1 y1 qx1 qy1 by (simp add: fmul_def fdiv_def feq_def)
  have xn2: "fl (95047 / 1000) = Fin (3344169013927215 / 35184372088832)"
    by (rule fl_normal [where k = "6" and m = 6688338027854430]) simp_all
  have yn2: "fl (100) = Fin (100)"
    by (rule fl_normal [where k = "6" and m = 7036874417766400]) simp_all
  have fy2: "fl (91 / 116) = Fin (7065992518805433 / 9007199254740992)"
    by (rule fl_normal [where k = "- 1" and m = 7065992518805433]) simp_all
  have v22: "fl ((7065992518805433 / 9007199254740992) * (7065992518805433 / 9007199254740992)) = Fin (5543149303545641 / 9007199254740992)"
    by (rule fl_normal [where k = "- 1" and m = 5543149303545641]) simp_all
  have v32: "fl ((5543149303545641 / 9007199254740992) * (7065992518805433 / 9007199254740992)) = Fin (4348505057091839 / 9007199254740992)"
    by (rule fl_normal [where k = "- 2" and m = 8697010114183678]) simp_all
  have x2: "fl ((4348505057091839 / 9007199254740992) * (3344169013927215 / 35184372088832)) = Fin (403625351720125 / 8796093022208)"
    by (rule fl_normal [where k = "5" and m = 6458005627522000]) simp_all
  have y2: "fl ((4348505057091839 / 9007199254740992) * (100)) = Fin (3397269575852999 / 70368744177664)"
    by (rule fl_normal [where k = "5" and m = 6794539151705998]) simp_all
  have qx2: "fl ((403625351720125 / 8796093022208) / (3344169013927215 / 35184372088832)) = Fin (4348505057091839 / 9007199254740992)"
    by (rule fl_normal [where k = "- 2" and m = 8697010114183678]) simp_all
  have qy2: "fl ((3397269575852999 / 70368744177664) / (100)) = Fin (8697010114183677 / 18014398509481984)"
    by (rule fl_normal [where k = "- 2" and m = 8697010114183677]) simp_all
  have h2: "holds [[Fin (3 / 4), Fin 0, Fin 0]] \<lparr>values_ref = 0\<rparr> (Fin (3 / 4)) (Fin 0) (Fin 0)"
    by (simp add: holds_def)
  have f2: "finite_number (Fin (3 / 4))"
    unfolding finite_number.simps by (rule fl_dyadic [of "- 2" 3]) simp_all
  have r2: "xyz_ratio (fdiv (fadd (fmul (Fin (3 / 4)) (lit 100)) (lit 16)) (lit 116)) = Fin (4348505057091839 / 9007199254740992)"
    by (rule xyz_ratio_cube [where a = 75 and b = 91, OF _ _ _ fy2 v22 v32])
      (simp_all add: fl_int' )
  have d2: "xyz_x D65_percent = Fin (3344169013927215 / 35184372088832)" "xyz_y D65_percent = Fin (100)"
    using xn2 yn2 by (simp_all add: D65_percent_def lit_def)
  have n2: "\<not> feq (fdiv (xyz_x (toXYZ D65_percent [[Fin (3 / 4), Fin 0, Fin 0]] \<lparr>values_ref = 0\<rparr>)) (xyz_x D65_percent))
      (fdiv (xyz_y (toXYZ D65_percent [[Fin (3 / 4), Fin 0, Fin 0]] \<lparr>values_ref = 0\<rparr>)) (xyz_y D65_percent))"
    unfolding toXYZ_neutral_ratio [OF h2 zero_is_zero zero_is_zero] r2 d2
    using x2 y2 qx2 qy2 by (simp add: fmul_def fdiv_def feq_def)
  have f0: "finite_number (Fin 0)" by (simp add: fl_zero)
  show ?thesis by (intro conjI f0 h1 f1 n1 h2 f2 n2)
qed

end
